theory Spec2Isabelle
  imports Main "HOL-Library.Word"
begin

unbundle bit_operations_syntax

section \<open>Python values, dictionaries and exceptions\<close>

text \<open>
  The values a persisted document can carry. A dataclass constructor does not check the
  annotated types of its arguments, so the fields of a read model hold any value.
\<close>

datatype pyval = PyStr string | PyInt int | PyBool bool | PyNone

text \<open>
  The exceptions raised by the modelled code; \<open>ConnectionFailure\<close> stands for an error
  that the database client raises.
\<close>

datatype error =
    TypeError | FileNotFoundError | IsADirectoryError | PermissionError
  | UnicodeDecodeError | UnicodeEncodeError | ConnectionFailure

text \<open>
  A \<^verbatim>\<open>dict\<close> with string keys, in insertion order. A key is looked up at its first
  entry; storing replaces the entry of a key that is present and appends otherwise;
  \<^verbatim>\<open>pop(key, None)\<close> removes the key and does nothing when it is absent.
\<close>

type_synonym pydict = "(string \<times> pyval) list"

definition dict_keys :: "pydict \<Rightarrow> string list" where
  "dict_keys d = map fst d"

fun dict_get :: "pydict \<Rightarrow> string \<Rightarrow> pyval option" where
  "dict_get [] k = None"
| "dict_get ((k', v) # d) k = (if k' = k then Some v else dict_get d k)"

fun dict_set :: "pydict \<Rightarrow> string \<Rightarrow> pyval \<Rightarrow> pydict" where
  "dict_set [] k v = [(k, v)]"
| "dict_set ((k', v') # d) k v = (if k' = k then (k, v) # d else (k', v') # dict_set d k v)"

fun dict_pop :: "pydict \<Rightarrow> string \<Rightarrow> pydict" where
  "dict_pop [] k = []"
| "dict_pop ((k', v) # d) k = (if k' = k then dict_pop d k else (k', v) # dict_pop d k)"

section \<open>Business rules, processes and migrations (domain/migration.py)\<close>

text \<open>
  Modelled from the spec: the class of business rules (domain/migration_business_rule.py),
  of which only a test is among the sources. A rule has a name, the names of the rules it
  depends on, and a check against the client that answers whether the rule is broken, or
  raises. The diagnostic of a broken rule is "Business rule {name} is broken."
\<close>

record 'client MigrationBusinessRule =
  rule_name :: string
  depends_on :: "string list"
  check_is_broken :: "'client \<Rightarrow> error + bool"


text \<open>
  \<^verbatim>\<open>MigrationProcess\<close>: the slots \<^verbatim>\<open>_rules\<close>, \<^verbatim>\<open>_name\<close>, \<^verbatim>\<open>_commands\<close> and
  \<^verbatim>\<open>_migration_version\<close>. Commands are opaque to this module.
\<close>

record ('cmd, 'client) MigrationProcess =
  rules :: "'client MigrationBusinessRule list"
  process_name :: string
  commands :: "'cmd list"
  migration_version :: int




text \<open>\<^verbatim>\<open>Migration\<close>: the seven slots of the class, typed as its constructor annotates them.\<close>

record ('cmd, 'client) Migration =
  name :: string
  version :: int
  checksum :: string
  is_applied :: bool
  description :: string
  upgrade_process :: "('cmd, 'client) MigrationProcess"
  downgrade_process :: "('cmd, 'client) MigrationProcess"

text \<open>
  What a call can do besides changing the object: execute a command or run a rule's
  check (the rule given by its position in the process). A method is a function on the
  object and the log of such calls made so far.
\<close>

datatype 'cmd call = Executed 'cmd | Checked nat

text \<open>\<^verbatim>\<open>set_is_applied\<close>: one assignment to the slot \<^verbatim>\<open>_is_applied\<close>.\<close>

definition set_is_applied ::
  "('cmd, 'client) Migration \<times> 'cmd call list \<Rightarrow> bool \<Rightarrow>
   ('cmd, 'client) Migration \<times> 'cmd call list" where
  "set_is_applied st v = (case st of (self, calls) \<Rightarrow> (self\<lparr>is_applied := v\<rparr>, calls))"

text \<open>\<^verbatim>\<open>to_dict\<close>: the five scalar entries, and \<^verbatim>\<open>_id\<close> when \<^verbatim>\<open>unique\<close> is set.\<close>

definition to_dict :: "('cmd, 'client) Migration \<Rightarrow> bool \<Rightarrow> pydict" where
  "to_dict self unique =
     (let mapping =
        [(''name'', PyStr (name self)),
         (''version'', PyInt (version self)),
         (''checksum'', PyStr (checksum self)),
         (''is_applied'', PyBool (is_applied self)),
         (''description'', PyStr (description self))]
      in if unique then dict_set mapping ''_id'' (PyInt (version self)) else mapping)"

section \<open>The read model (domain/migration.py)\<close>

record MigrationReadModel =
  rm_name :: pyval
  rm_version :: pyval
  rm_checksum :: pyval
  rm_description :: pyval
  rm_is_applied :: pyval

text \<open>The parameters of the generated constructor, in the order of the fields.\<close>

definition dataclass_fields :: "string list" where
  "dataclass_fields = [''name'', ''version'', ''checksum'', ''description'', ''is_applied'']"

text \<open>
  \<^verbatim>\<open>cls(**mapping)\<close>: every key is passed as a keyword argument. The generated
  constructor has the five fields as parameters, none with a default, and takes nothing
  else: a keyword that is no field, or a field without a keyword, raises
  \<^verbatim>\<open>TypeError\<close>.
\<close>

definition MigrationReadModel_init :: "pydict \<Rightarrow> error + MigrationReadModel" where
  "MigrationReadModel_init kwargs =
     (if \<exists>k \<in> set (dict_keys kwargs). k \<notin> set dataclass_fields then Inl TypeError
      else if \<exists>k \<in> set dataclass_fields. dict_get kwargs k = None then Inl TypeError
      else Inr \<lparr>rm_name = the (dict_get kwargs ''name''),
                rm_version = the (dict_get kwargs ''version''),
                rm_checksum = the (dict_get kwargs ''checksum''),
                rm_description = the (dict_get kwargs ''description''),
                rm_is_applied = the (dict_get kwargs ''is_applied'')\<rparr>)"

text \<open>
  \<^verbatim>\<open>from_dict\<close> pops \<^verbatim>\<open>_id\<close> from the caller's dictionary, then constructs. The first
  component of the result is the caller's dictionary after the call.
\<close>

definition from_dict :: "pydict \<Rightarrow> pydict \<times> (error + MigrationReadModel)" where
  "from_dict mapping =
     (let mapping' = dict_pop mapping ''_id'' in (mapping', MigrationReadModel_init mapping'))"

definition from_migration :: "('cmd, 'client) Migration \<Rightarrow> MigrationReadModel" where
  "from_migration migration =
     \<lparr>rm_name = PyStr (name migration),
      rm_version = PyInt (version migration),
      rm_checksum = PyStr (checksum migration),
      rm_description = PyStr (description migration),
      rm_is_applied = PyBool (is_applied migration)\<rparr>"

section \<open>Filename strategies (infrastructure/filename_strategies.py)\<close>

text \<open>
  Modelled from the spec: the module with the three filename strategies, of which only the
  tests are among the sources. A filename is a \<^typ>\<open>string\<close>, a position in the queue
  a \<^typ>\<open>nat\<close>; a digit is one of the ten decimal digits.
\<close>

definition is_digit :: "char \<Rightarrow> bool" where
  "is_digit c = (c \<in> set ''0123456789'')"

text \<open>
  Modelled from the spec: "the given position, zero-padded to 3 digits". The position is
  written in decimal and zeros are put before it up to a width of three; padding never cuts
  digits off, so a position from 1000 on keeps all its digits.
\<close>

definition digit_char :: "nat \<Rightarrow> char" where
  "digit_char d = ''0123456789'' ! d"

fun str_nat :: "nat \<Rightarrow> string" where
  "str_nat n = (if n < 10 then [digit_char n] else str_nat (n div 10) @ [digit_char (n mod 10)])"

declare str_nat.simps [simp del]

definition zero_pad3 :: "nat \<Rightarrow> string" where
  "zero_pad3 p = replicate (3 - length (str_nat p)) (CHR ''0'') @ str_nat p"

text \<open>
  Modelled from the spec: \<^verbatim>\<open>MissingFilenameStrategy\<close>, whose source is missing. It
  "always considers any filename valid as-is; never transforms".
\<close>

definition Missing_is_valid_filename :: "string \<Rightarrow> bool" where
  "Missing_is_valid_filename filename = True"

definition Missing_transform_migration_filename :: "string \<Rightarrow> nat \<Rightarrow> string" where
  "Missing_transform_migration_filename filename position = filename"

text \<open>
  Modelled from the spec: \<^verbatim>\<open>NumericalFilenameStrategy\<close>, whose source is missing.
  A filename is valid when it matches the pattern \<^verbatim>\<open>NNN_\<close> at its start: three digits,
  then an underscore. An invalid filename is rewritten "by prefixing the given position,
  zero-padded to 3 digits, plus underscore, onto the original filename"; a valid one "is
  returned unchanged".
\<close>

fun Numerical_is_valid_filename :: "string \<Rightarrow> bool" where
  "Numerical_is_valid_filename (a # b # c # u # rest) =
     (is_digit a \<and> is_digit b \<and> is_digit c \<and> u = CHR ''_'')"
| "Numerical_is_valid_filename _ = False"

definition Numerical_transform_migration_filename :: "string \<Rightarrow> nat \<Rightarrow> string" where
  "Numerical_transform_migration_filename filename position =
     (if Numerical_is_valid_filename filename then filename
      else zero_pad3 position @ ''_'' @ filename)"

text \<open>
  Modelled from the spec: \<^verbatim>\<open>UnixFilenameStrategy\<close>, whose source is missing. A filename
  is valid when it "begins with a numeric prefix of at least 10 digits followed by an
  underscore": \<open>digits_then_underscore n\<close> reads digits, of which \<open>n\<close> are still
  required, up to the first other character, which must be the underscore. A valid filename
  "passes through unchanged"; what is prefixed to an invalid one is generated outside the
  strategy, and is the parameter \<open>stamp\<close> here.
\<close>

fun digits_then_underscore :: "nat \<Rightarrow> string \<Rightarrow> bool" where
  "digits_then_underscore n [] = False"
| "digits_then_underscore n (c # cs) =
     (if is_digit c then digits_then_underscore (n - 1) cs else n = 0 \<and> c = CHR ''_'')"

definition Unix_is_valid_filename :: "string \<Rightarrow> bool" where
  "Unix_is_valid_filename filename = digits_then_underscore 10 filename"

definition Unix_transform_migration_filename ::
  "(string \<Rightarrow> nat \<Rightarrow> string) \<Rightarrow> string \<Rightarrow> nat \<Rightarrow> string" where
  "Unix_transform_migration_filename stamp filename position =
     (if Unix_is_valid_filename filename then filename else stamp filename position)"


section \<open>The business-rule engine\<close>















section \<open>The checksum service (kernel/application/services/checksum_service.py)\<close>

text \<open>
  A Python \<^verbatim>\<open>str\<close> is a sequence of code points, a \<^verbatim>\<open>bytes\<close> object a sequence of
  bytes. \<^verbatim>\<open>str.encode()\<close> is UTF-8 with strict error handling: one to four bytes per
  code point, and \<^verbatim>\<open>UnicodeEncodeError\<close> for a surrogate (\<open>None\<close> here; a number from
  \<open>0x110000\<close> on is no code point at all).
\<close>

type_synonym byte = "8 word"
type_synonym pystr = "nat list"

definition utf8_encode_char :: "nat \<Rightarrow> byte list option" where
  "utf8_encode_char cp =
     (if cp < 0x80 then Some [of_nat cp]
      else if cp < 0x800 then Some [of_nat (0xC0 + cp div 64), of_nat (0x80 + cp mod 64)]
      else if 0xD800 \<le> cp \<and> cp < 0xE000 then None
      else if cp < 0x10000 then
        Some [of_nat (0xE0 + cp div 4096), of_nat (0x80 + cp div 64 mod 64),
              of_nat (0x80 + cp mod 64)]
      else if cp < 0x110000 then
        Some [of_nat (0xF0 + cp div 262144), of_nat (0x80 + cp div 4096 mod 64),
              of_nat (0x80 + cp div 64 mod 64), of_nat (0x80 + cp mod 64)]
      else None)"

fun str_encode :: "pystr \<Rightarrow> byte list option" where
  "str_encode [] = Some []"
| "str_encode (cp # cps) =
     (case utf8_encode_char cp of
        None \<Rightarrow> None
      | Some bs \<Rightarrow> (case str_encode cps of None \<Rightarrow> None | Some rest \<Rightarrow> Some (bs @ rest)))"

text \<open>
  \<^verbatim>\<open>hashlib.md5\<close>: the MD5 message digest (RFC 1321) on 32-bit words. The message is
  padded with the byte \<open>0x80\<close>, zeros up to 56 modulo 64 bytes, and its length in bits as
  64 bits, least significant byte first; each block of 64 bytes, read as 16 little-endian
  words, goes through 64 steps and is added to the state.
\<close>

type_synonym md5_state = "32 word \<times> 32 word \<times> 32 word \<times> 32 word"

definition md5_K :: "32 word list" where
  "md5_K =
    [0xd76aa478, 0xe8c7b756, 0x242070db, 0xc1bdceee, 0xf57c0faf, 0x4787c62a, 0xa8304613,
     0xfd469501, 0x698098d8, 0x8b44f7af, 0xffff5bb1, 0x895cd7be, 0x6b901122, 0xfd987193,
     0xa679438e, 0x49b40821, 0xf61e2562, 0xc040b340, 0x265e5a51, 0xe9b6c7aa, 0xd62f105d,
     0x02441453, 0xd8a1e681, 0xe7d3fbc8, 0x21e1cde6, 0xc33707d6, 0xf4d50d87, 0x455a14ed,
     0xa9e3e905, 0xfcefa3f8, 0x676f02d9, 0x8d2a4c8a, 0xfffa3942, 0x8771f681, 0x6d9d6122,
     0xfde5380c, 0xa4beea44, 0x4bdecfa9, 0xf6bb4b60, 0xbebfbc70, 0x289b7ec6, 0xeaa127fa,
     0xd4ef3085, 0x04881d05, 0xd9d4d039, 0xe6db99e5, 0x1fa27cf8, 0xc4ac5665, 0xf4292244,
     0x432aff97, 0xab9423a7, 0xfc93a039, 0x655b59c3, 0x8f0ccc92, 0xffeff47d, 0x85845dd1,
     0x6fa87e4f, 0xfe2ce6e0, 0xa3014314, 0x4e0811a1, 0xf7537e82, 0xbd3af235, 0x2ad7d2bb,
     0xeb86d391]"

definition md5_s :: "nat list" where
  "md5_s =
    [7, 12, 17, 22, 7, 12, 17, 22, 7, 12, 17, 22, 7, 12, 17, 22,
     5, 9, 14, 20, 5, 9, 14, 20, 5, 9, 14, 20, 5, 9, 14, 20,
     4, 11, 16, 23, 4, 11, 16, 23, 4, 11, 16, 23, 4, 11, 16, 23,
     6, 10, 15, 21, 6, 10, 15, 21, 6, 10, 15, 21, 6, 10, 15, 21]"

definition rotl32 :: "32 word \<Rightarrow> nat \<Rightarrow> 32 word" where
  "rotl32 x n = push_bit n x OR drop_bit (32 - n) x"

definition md5_f :: "nat \<Rightarrow> 32 word \<Rightarrow> 32 word \<Rightarrow> 32 word \<Rightarrow> 32 word" where
  "md5_f i b c d =
     (if i < 16 then (b AND c) OR (NOT b AND d)
      else if i < 32 then (d AND b) OR (NOT d AND c)
      else if i < 48 then b XOR c XOR d
      else c XOR (b OR NOT d))"

definition md5_g :: "nat \<Rightarrow> nat" where
  "md5_g i =
     (if i < 16 then i
      else if i < 32 then (5 * i + 1) mod 16
      else if i < 48 then (3 * i + 5) mod 16
      else (7 * i) mod 16)"

definition md5_step :: "32 word list \<Rightarrow> md5_state \<Rightarrow> nat \<Rightarrow> md5_state" where
  "md5_step M st i =
     (case st of (a, b, c, d) \<Rightarrow>
        (d, b + rotl32 (a + md5_f i b c d + md5_K ! i + M ! md5_g i) (md5_s ! i), b, c))"

function md5_rounds :: "32 word list \<Rightarrow> nat \<Rightarrow> md5_state \<Rightarrow> md5_state" where
  "md5_rounds M i st = (if i < 64 then md5_rounds M (i + 1) (md5_step M st i) else st)"
  by pat_completeness auto
termination
  by (relation "measure (\<lambda>(M, i, st). 64 - i)") auto

declare md5_rounds.simps [simp del]

fun le_words :: "byte list \<Rightarrow> 32 word list" where
  "le_words (b0 # b1 # b2 # b3 # rest) =
     (ucast b0 OR push_bit 8 (ucast b1) OR push_bit 16 (ucast b2) OR push_bit 24 (ucast b3))
       # le_words rest"
| "le_words _ = []"

definition md5_add :: "md5_state \<Rightarrow> md5_state \<Rightarrow> md5_state" where
  "md5_add s t =
     (case s of (a, b, c, d) \<Rightarrow>
        case t of (a', b', c', d') \<Rightarrow> (a + a', b + b', c + c', d + d'))"

definition md5_block :: "md5_state \<Rightarrow> byte list \<Rightarrow> md5_state" where
  "md5_block st blk = md5_add st (md5_rounds (le_words blk) 0 st)"

function md5_blocks :: "md5_state \<Rightarrow> byte list \<Rightarrow> md5_state" where
  "md5_blocks st bs =
     (if length bs < 64 then st else md5_blocks (md5_block st (take 64 bs)) (drop 64 bs))"
  by pat_completeness auto
termination
  by (relation "measure (\<lambda>(st, bs). length bs)") auto

declare md5_blocks.simps [simp del]

definition le_bytes32 :: "32 word \<Rightarrow> byte list" where
  "le_bytes32 w = [ucast w, ucast (drop_bit 8 w), ucast (drop_bit 16 w), ucast (drop_bit 24 w)]"

definition le_bytes64 :: "64 word \<Rightarrow> byte list" where
  "le_bytes64 w =
     [ucast w, ucast (drop_bit 8 w), ucast (drop_bit 16 w), ucast (drop_bit 24 w),
      ucast (drop_bit 32 w), ucast (drop_bit 40 w), ucast (drop_bit 48 w),
      ucast (drop_bit 56 w)]"

definition md5_pad :: "byte list \<Rightarrow> byte list" where
  "md5_pad msg =
     msg @ [0x80] @ replicate ((119 - length msg mod 64) mod 64) 0
       @ le_bytes64 (of_nat (8 * length msg))"

definition md5_init :: md5_state where
  "md5_init = (0x67452301, 0xefcdab89, 0x98badcfe, 0x10325476)"

definition md5_digest :: "byte list \<Rightarrow> byte list" where
  "md5_digest msg =
     (case md5_blocks md5_init (md5_pad msg) of (a, b, c, d) \<Rightarrow>
        le_bytes32 a @ le_bytes32 b @ le_bytes32 c @ le_bytes32 d)"

text \<open>\<^verbatim>\<open>hexdigest()\<close>: two lower-case hexadecimal digits per byte.\<close>

definition hex_digit :: "nat \<Rightarrow> char" where
  "hex_digit n = ''0123456789abcdef'' ! n"

definition hexdigest :: "byte list \<Rightarrow> string" where
  "hexdigest bs = concat (map (\<lambda>b. [hex_digit (unat b div 16), hex_digit (unat b mod 16)]) bs)"

text \<open>
  Modelled from the spec: \<^verbatim>\<open>MigrationModule\<close> (kernel/domain/migration_module.py, not
  among the sources), which "exposes at minimum a location (filesystem path)".
\<close>

record MigrationModule =
  location :: string

text \<open>
  What \<^verbatim>\<open>open(location, "r")\<close> finds at a location: nothing (\<^verbatim>\<open>FileNotFoundError\<close>), a
  directory (\<^verbatim>\<open>IsADirectoryError\<close>), a file that may not be read (\<^verbatim>\<open>PermissionError\<close>),
  or a file with its bytes.
\<close>

datatype node = File "byte list" | Directory | Unreadable

text \<open>
  A file opened in text mode is decoded with the encoding of the locale, which is a
  parameter of the service here (a function that fails where the codec raises
  \<^verbatim>\<open>UnicodeDecodeError\<close>). \<open>utf8_decode\<close> is the strict UTF-8 codec, the encoding of a
  UTF-8 locale: it refuses stray and missing continuation bytes, overlong forms,
  surrogates and numbers from \<open>0x110000\<close> on.
\<close>

definition is_continuation :: "byte \<Rightarrow> bool" where
  "is_continuation b = (0x80 \<le> unat b \<and> unat b < 0xC0)"

definition code_point2 :: "byte \<Rightarrow> byte \<Rightarrow> nat" where
  "code_point2 b0 b1 = (unat b0 - 0xC0) * 64 + (unat b1 - 0x80)"

definition code_point3 :: "byte \<Rightarrow> byte \<Rightarrow> byte \<Rightarrow> nat" where
  "code_point3 b0 b1 b2 = (unat b0 - 0xE0) * 4096 + (unat b1 - 0x80) * 64 + (unat b2 - 0x80)"

definition code_point4 :: "byte \<Rightarrow> byte \<Rightarrow> byte \<Rightarrow> byte \<Rightarrow> nat" where
  "code_point4 b0 b1 b2 b3 =
     (unat b0 - 0xF0) * 262144 + (unat b1 - 0x80) * 4096 + (unat b2 - 0x80) * 64
       + (unat b3 - 0x80)"

fun utf8_decode :: "byte list \<Rightarrow> pystr option" where
  "utf8_decode [] = Some []"
| "utf8_decode (b0 # bs) =
     (if unat b0 < 0x80 then map_option (Cons (unat b0)) (utf8_decode bs)
      else if unat b0 < 0xC0 then None
      else if unat b0 < 0xE0 then
        (case bs of
           b1 # rest \<Rightarrow>
             if is_continuation b1 \<and> 0x80 \<le> code_point2 b0 b1
             then map_option (Cons (code_point2 b0 b1)) (utf8_decode rest)
             else None
         | _ \<Rightarrow> None)
      else if unat b0 < 0xF0 then
        (case bs of
           b1 # b2 # rest \<Rightarrow>
             if is_continuation b1 \<and> is_continuation b2 \<and> 0x800 \<le> code_point3 b0 b1 b2
                \<and> \<not> (0xD800 \<le> code_point3 b0 b1 b2 \<and> code_point3 b0 b1 b2 < 0xE000)
             then map_option (Cons (code_point3 b0 b1 b2)) (utf8_decode rest)
             else None
         | _ \<Rightarrow> None)
      else if unat b0 < 0xF8 then
        (case bs of
           b1 # b2 # b3 # rest \<Rightarrow>
             if is_continuation b1 \<and> is_continuation b2 \<and> is_continuation b3
                \<and> 0x10000 \<le> code_point4 b0 b1 b2 b3 \<and> code_point4 b0 b1 b2 b3 < 0x110000
             then map_option (Cons (code_point4 b0 b1 b2 b3)) (utf8_decode rest)
             else None
         | _ \<Rightarrow> None)
      else None)"

text \<open>
  Text mode with the default \<^verbatim>\<open>newline=None\<close> reads the line endings \<^verbatim>\<open>\r\n\<close> and
  \<^verbatim>\<open>\r\<close> as \<^verbatim>\<open>\n\<close> (13 is the carriage return, 10 the line feed).
\<close>

fun universal_newlines :: "pystr \<Rightarrow> pystr" where
  "universal_newlines [] = []"
| "universal_newlines [c] = [if c = 13 then 10 else c]"
| "universal_newlines (c # d # cs) =
     (if c = 13 \<and> d = 10 then 10 # universal_newlines cs
      else if c = 13 then 10 # universal_newlines (d # cs)
      else c # universal_newlines (d # cs))"

text \<open>
  \<^verbatim>\<open>calculate_migration_checksum\<close>: open the file at the location of the module in text
  mode, read all of it (decoded, line endings translated), encode the text and return
  the hexadecimal MD5 digest of the bytes.
\<close>

definition calculate_migration_checksum ::
  "(byte list \<Rightarrow> pystr option) \<Rightarrow> (string \<Rightarrow> node option) \<Rightarrow> MigrationModule \<Rightarrow>
   error + string" where
  "calculate_migration_checksum locale_decode files module =
     (case files (location module) of
        None \<Rightarrow> Inl FileNotFoundError
      | Some Directory \<Rightarrow> Inl IsADirectoryError
      | Some Unreadable \<Rightarrow> Inl PermissionError
      | Some (File content) \<Rightarrow>
          (case locale_decode content of
             None \<Rightarrow> Inl UnicodeDecodeError
           | Some decoded \<Rightarrow>
               (case str_encode (universal_newlines decoded) of
                  None \<Rightarrow> Inl UnicodeEncodeError
                | Some file_data \<Rightarrow> Inr (hexdigest (md5_digest file_data)))))"

text \<open>
  The bytes of a file written in ASCII, and two files of 72 characters that differ in the
  character at index 21 (\<open>A\<close> and \<open>E\<close>).
\<close>

definition ascii :: "string \<Rightarrow> byte list" where
  "ascii cs = map (\<lambda>c. of_nat (of_char c)) cs"

definition content_A :: "byte list" where
  "content_A =
     ascii ''TEXTCOLLBYfGiJUETHQ4hAcKSMd5zYpgqf1YRDhkmxHkhPWptrkoyz28wnI9V0aHeAuaKnak''"

definition content_E :: "byte list" where
  "content_E =
     ascii ''TEXTCOLLBYfGiJUETHQ4hEcKSMd5zYpgqf1YRDhkmxHkhPWptrkoyz28wnI9V0aHeAuaKnak''"

section \<open>Facts about dictionaries\<close>

lemma dict_get_Cons:
  "dict_get (p # d) k = (if fst p = k then Some (snd p) else dict_get d k)"
  by (cases p) simp

lemma dict_pop_Cons:
  "dict_pop (p # d) k = (if fst p = k then dict_pop d k else p # dict_pop d k)"
  by (cases p) simp

lemma dict_keys_Cons: "dict_keys (p # d) = fst p # dict_keys d"
  by (simp add: dict_keys_def)

lemma dict_keys_Nil: "dict_keys [] = []"
  by (simp add: dict_keys_def)

lemma dict_get_None_iff: "dict_get d k = None \<longleftrightarrow> k \<notin> set (dict_keys d)"
proof (induction d)
  case Nil
  show ?case by (simp add: dict_keys_Nil)
next
  case (Cons p d)
  then show ?case
    by (cases "fst p = k") (simp_all add: dict_get_Cons dict_keys_Cons)
qed

lemma mem_dict_keys_pop:
  "k' \<in> set (dict_keys (dict_pop d k)) \<longleftrightarrow> k' \<in> set (dict_keys d) \<and> k' \<noteq> k"
proof (induction d)
  case Nil
  show ?case by (simp add: dict_keys_Nil)
next
  case (Cons p d)
  show ?case
  proof (cases "fst p = k")
    case True
    with Cons show ?thesis
      by (auto simp add: dict_pop_Cons dict_keys_Cons)
  next
    case False
    with Cons show ?thesis
      by (auto simp add: dict_pop_Cons dict_keys_Cons)
  qed
qed

lemma dict_get_pop: "dict_get (dict_pop d k) k' = (if k' = k then None else dict_get d k')"
proof (induction d)
  case Nil
  show ?case by simp
next
  case (Cons p d)
  then show ?case
    by (cases "fst p = k") (auto simp add: dict_pop_Cons dict_get_Cons)
qed

lemma dict_pop_absent: "k \<notin> set (dict_keys d) \<Longrightarrow> dict_pop d k = d"
proof (induction d)
  case Nil
  show ?case by simp
next
  case (Cons p d)
  then show ?case
    by (auto simp add: dict_pop_Cons dict_keys_Cons)
qed

lemma dict_pop_present_neq: "k \<in> set (dict_keys d) \<Longrightarrow> dict_pop d k \<noteq> d"
proof
  assume "k \<in> set (dict_keys d)" and "dict_pop d k = d"
  then have "k \<in> set (dict_keys (dict_pop d k))" by simp
  then show False by (simp add: mem_dict_keys_pop)
qed

lemma init_missing:
  assumes "k \<in> set dataclass_fields" and "k \<notin> set (dict_keys kwargs)"
  shows "MigrationReadModel_init kwargs = Inl TypeError"
proof -
  have "dict_get kwargs k = None"
    using assms(2) by (simp add: dict_get_None_iff)
  with assms(1) have "\<exists>k \<in> set dataclass_fields. dict_get kwargs k = None" by blast
  then show ?thesis
    unfolding MigrationReadModel_init_def by simp
qed

lemma init_surplus:
  assumes "k \<in> set (dict_keys kwargs)" and "k \<notin> set dataclass_fields"
  shows "MigrationReadModel_init kwargs = Inl TypeError"
proof -
  from assms have "\<exists>k \<in> set (dict_keys kwargs). k \<notin> set dataclass_fields" by blast
  then show ?thesis
    unfolding MigrationReadModel_init_def by simp
qed

lemma dict_pop_set: "dict_pop (dict_set d k v) k = dict_pop d k"
proof (induction d)
  case Nil
  show ?case by simp
next
  case (Cons p d)
  obtain k' v' where p: "p = (k', v')" by (cases p)
  from Cons show ?case
    unfolding p by (cases "k' = k") simp_all
qed

section \<open>The read-model projection\<close>

text \<open>
  C1. For every migration \<open>m\<close>, \<^verbatim>\<open>from_dict\<close> applied to \<^verbatim>\<open>m.to_dict(unique=True)\<close>
  returns the read model that \<^verbatim>\<open>from_migration(m)\<close> returns, field for field; the
  dictionary is left as \<^verbatim>\<open>m.to_dict()\<close> without the identity key.
\<close>

theorem from_dict_to_dict_roundtrip:
  "snd (from_dict (to_dict m True)) = Inr (from_migration m) \<and>
   fst (from_dict (to_dict m True)) = to_dict m False"
  by (simp add: from_dict_def to_dict_def MigrationReadModel_init_def dataclass_fields_def
      dict_keys_def from_migration_def)

text \<open>
  C2. \<^verbatim>\<open>set_is_applied(b)\<close> sets \<^verbatim>\<open>is_applied\<close> to \<open>b\<close>, leaves name, version, checksum,
  description and both processes as they were, and adds no command execution or rule
  check to the log of calls.
\<close>

theorem set_is_applied_frame:
  "is_applied (fst (set_is_applied (m, calls) b)) = b \<and>
   name (fst (set_is_applied (m, calls) b)) = name m \<and>
   version (fst (set_is_applied (m, calls) b)) = version m \<and>
   checksum (fst (set_is_applied (m, calls) b)) = checksum m \<and>
   description (fst (set_is_applied (m, calls) b)) = description m \<and>
   upgrade_process (fst (set_is_applied (m, calls) b)) = upgrade_process m \<and>
   downgrade_process (fst (set_is_applied (m, calls) b)) = downgrade_process m \<and>
   snd (set_is_applied (m, calls) b) = calls"
  by (simp add: set_is_applied_def)

text \<open>
  C5. A mapping without one of the keys name, version, checksum, description, is_applied
  makes \<^verbatim>\<open>from_dict\<close> raise \<^verbatim>\<open>TypeError\<close>: no read model is built and no default is
  filled in. The key \<^verbatim>\<open>_id\<close> is removed before the constructor runs, so its presence
  never changes the outcome.
\<close>

theorem from_dict_missing_key:
  "(k \<in> set dataclass_fields \<and> k \<notin> set (dict_keys mapping) \<longrightarrow>
      snd (from_dict mapping) = Inl TypeError) \<and>
   snd (from_dict (dict_set mapping ''_id'' v)) = snd (from_dict mapping)"
proof (intro conjI impI)
  assume k: "k \<in> set dataclass_fields \<and> k \<notin> set (dict_keys mapping)"
  then have "k \<notin> set (dict_keys (dict_pop mapping ''_id''))"
    by (simp add: mem_dict_keys_pop)
  with k have "MigrationReadModel_init (dict_pop mapping ''_id'') = Inl TypeError"
    by (blast intro: init_missing)
  then show "snd (from_dict mapping) = Inl TypeError"
    by (simp add: from_dict_def)
next
  show "snd (from_dict (dict_set mapping ''_id'' v)) = snd (from_dict mapping)"
    by (simp add: from_dict_def dict_pop_set)
qed

theorem from_dict_missing_key_witness:
  "''checksum'' \<in> set dataclass_fields \<and>
   ''checksum'' \<notin> set (dict_keys
      [(''name'', PyStr ''m''), (''version'', PyInt 1), (''description'', PyStr ''d''),
       (''is_applied'', PyBool False), (''_id'', PyInt 1)]) \<and>
   snd (from_dict
      [(''name'', PyStr ''m''), (''version'', PyInt 1), (''description'', PyStr ''d''),
       (''is_applied'', PyBool False), (''_id'', PyInt 1)]) = Inl TypeError"
  using from_dict_missing_key [of "''checksum''"
      "[(''name'', PyStr ''m''), (''version'', PyInt 1), (''description'', PyStr ''d''),
        (''is_applied'', PyBool False), (''_id'', PyInt 1)]" PyNone]
  by (simp add: dataclass_fields_def dict_keys_def)

text \<open>
  C9. \<^verbatim>\<open>from_dict\<close> changes the dictionary it is given: when the key \<^verbatim>\<open>_id\<close> is
  present, the caller's dictionary after the call no longer has it (so it differs from
  the one passed in), while every other key keeps its value.
\<close>

theorem from_dict_mutates_argument:
  "''_id'' \<in> set (dict_keys mapping) \<Longrightarrow>
     ''_id'' \<notin> set (dict_keys (fst (from_dict mapping))) \<and>
     fst (from_dict mapping) \<noteq> mapping \<and>
     (\<forall>k. k \<noteq> ''_id'' \<longrightarrow> dict_get (fst (from_dict mapping)) k = dict_get mapping k)"
  by (simp add: from_dict_def Let_def mem_dict_keys_pop dict_pop_present_neq dict_get_pop)

theorem from_dict_mutates_argument_witness:
  "''_id'' \<in> set (dict_keys [(''_id'', PyInt 7), (''name'', PyStr ''m'')]) \<and>
   ''_id'' \<notin> set (dict_keys (fst (from_dict [(''_id'', PyInt 7), (''name'', PyStr ''m'')]))) \<and>
   fst (from_dict [(''_id'', PyInt 7), (''name'', PyStr ''m'')]) = [(''name'', PyStr ''m'')]"
  using from_dict_mutates_argument [of "[(''_id'', PyInt 7), (''name'', PyStr ''m'')]"]
  by (simp add: dict_keys_def from_dict_def Let_def)

text \<open>
  C10. A mapping that has, besides \<^verbatim>\<open>_id\<close>, a key outside name, version, checksum,
  description, is_applied makes \<^verbatim>\<open>from_dict\<close> raise \<^verbatim>\<open>TypeError\<close>: the unknown key
  is not ignored.
\<close>

theorem from_dict_rejects_surplus:
  "k \<in> set (dict_keys mapping) \<Longrightarrow> k \<noteq> ''_id'' \<Longrightarrow> k \<notin> set dataclass_fields \<Longrightarrow>
     snd (from_dict mapping) = Inl TypeError"
proof -
  assume "k \<in> set (dict_keys mapping)" and "k \<noteq> ''_id''" and nf: "k \<notin> set dataclass_fields"
  then have "k \<in> set (dict_keys (dict_pop mapping ''_id''))"
    by (simp add: mem_dict_keys_pop)
  then have "MigrationReadModel_init (dict_pop mapping ''_id'') = Inl TypeError"
    using nf by (rule init_surplus)
  then show ?thesis
    by (simp add: from_dict_def)
qed

theorem from_dict_rejects_surplus_witness:
  "''extra'' \<in> set (dict_keys
      [(''_id'', PyInt 1), (''name'', PyStr ''m''), (''version'', PyInt 1),
       (''checksum'', PyStr ''c''), (''description'', PyStr ''d''),
       (''is_applied'', PyBool True), (''extra'', PyNone)]) \<and>
   ''extra'' \<noteq> ''_id'' \<and> ''extra'' \<notin> set dataclass_fields \<and>
   snd (from_dict
      [(''_id'', PyInt 1), (''name'', PyStr ''m''), (''version'', PyInt 1),
       (''checksum'', PyStr ''c''), (''description'', PyStr ''d''),
       (''is_applied'', PyBool True), (''extra'', PyNone)]) = Inl TypeError"
  using from_dict_rejects_surplus [of "''extra''"
      "[(''_id'', PyInt 1), (''name'', PyStr ''m''), (''version'', PyInt 1),
        (''checksum'', PyStr ''c''), (''description'', PyStr ''d''),
        (''is_applied'', PyBool True), (''extra'', PyNone)]"]
  by (simp add: dataclass_fields_def dict_keys_def)

section \<open>Filename strategies\<close>

text \<open>
  C8. The Missing strategy accepts every filename, and its transform returns the filename
  it is given, whatever the position.
\<close>

theorem Missing_strategy_identity:
  "Missing_is_valid_filename filename \<and>
   Missing_transform_migration_filename filename position = filename"
  by (simp add: Missing_is_valid_filename_def Missing_transform_migration_filename_def)


lemma digit_char_is_digit: "d < 10 \<Longrightarrow> is_digit (digit_char d)"
proof -
  assume "d < 10"
  then have "d \<in> {0,1,2,3,4,5,6,7,8,9}" by auto
  then show ?thesis
    by (auto simp: is_digit_def digit_char_def)
qed

lemma is_digit_digit_char: "is_digit c \<Longrightarrow> \<exists>d<10. c = digit_char d"
proof -
  assume "is_digit c"
  then consider "c = CHR ''0''" | "c = CHR ''1''" | "c = CHR ''2''" | "c = CHR ''3''"
    | "c = CHR ''4''" | "c = CHR ''5''" | "c = CHR ''6''" | "c = CHR ''7''"
    | "c = CHR ''8''" | "c = CHR ''9''"
    by (auto simp: is_digit_def)
  then show ?thesis
  proof cases
    case 1 then have "c = digit_char 0" by (simp add: digit_char_def) then show ?thesis by (intro exI[of _ 0]) simp
  next
    case 2 then have "c = digit_char 1" by (simp add: digit_char_def) then show ?thesis by (intro exI[of _ 1]) simp
  next
    case 3 then have "c = digit_char 2" by (simp add: digit_char_def) then show ?thesis by (intro exI[of _ 2]) simp
  next
    case 4 then have "c = digit_char 3" by (simp add: digit_char_def) then show ?thesis by (intro exI[of _ 3]) simp
  next
    case 5 then have "c = digit_char 4" by (simp add: digit_char_def) then show ?thesis by (intro exI[of _ 4]) simp
  next
    case 6 then have "c = digit_char 5" by (simp add: digit_char_def) then show ?thesis by (intro exI[of _ 5]) simp
  next
    case 7 then have "c = digit_char 6" by (simp add: digit_char_def) then show ?thesis by (intro exI[of _ 6]) simp
  next
    case 8 then have "c = digit_char 7" by (simp add: digit_char_def) then show ?thesis by (intro exI[of _ 7]) simp
  next
    case 9 then have "c = digit_char 8" by (simp add: digit_char_def) then show ?thesis by (intro exI[of _ 8]) simp
  next
    case 10 then have "c = digit_char 9" by (simp add: digit_char_def) then show ?thesis by (intro exI[of _ 9]) simp
  qed
qed

lemma underscore_not_digit: "\<not> is_digit (CHR ''_'')"
  by (simp add: is_digit_def)

lemma str_nat_small: "n < 10 \<Longrightarrow> str_nat n = [digit_char n]"
  by (subst str_nat.simps) simp

lemma str_nat_step: "0 < n \<Longrightarrow> d < 10 \<Longrightarrow> str_nat (10 * n + d) = str_nat n @ [digit_char d]"
  by (subst str_nat.simps) simp

lemma str_nat_digits: "c \<in> set (str_nat n) \<Longrightarrow> is_digit c"
proof (induction n arbitrary: c rule: str_nat.induct)
  case (1 n)
  show ?case
  proof (cases "n < 10")
    case True
    with "1.prems" show ?thesis
      by (simp add: str_nat_small digit_char_is_digit)
  next
    case False
    have "str_nat n = str_nat (n div 10) @ [digit_char (n mod 10)]"
      using False by (subst str_nat.simps) simp
    with "1.prems" have "c \<in> set (str_nat (n div 10)) \<or> c = digit_char (n mod 10)"
      by auto
    then show ?thesis
      using "1.IH" [OF False] digit_char_is_digit [of "n mod 10"] by auto
  qed
qed

lemma length_str_nat_ge: "10 ^ k \<le> n \<Longrightarrow> k < length (str_nat n)"
proof (induction k arbitrary: n)
  case 0
  show ?case by (subst str_nat.simps) simp
next
  case (Suc k)
  have "(1::nat) \<le> 10 ^ k" by simp
  moreover from Suc.prems have "10 * 10 ^ k \<le> n" by simp
  ultimately have big: "\<not> n < 10" by linarith
  have "10 ^ k \<le> n div 10" using Suc.prems by (simp add: less_eq_div_iff_mult_less_eq)
  then have "k < length (str_nat (n div 10))" by (rule Suc.IH)
  then show ?case using big by (subst str_nat.simps) simp
qed

lemma zero_pad3_digits: "a < 10 \<Longrightarrow> b < 10 \<Longrightarrow> c < 10 \<Longrightarrow>
  zero_pad3 (100 * a + 10 * b + c) = [digit_char a, digit_char b, digit_char c]"
proof -
  assume a: "a < 10" and b: "b < 10" and c: "c < 10"
  have zero: "CHR ''0'' = digit_char 0" by (simp add: digit_char_def)
  show ?thesis
  proof (cases "a = 0")
    case True
    note a0 = this
    show ?thesis
    proof (cases "b = 0")
      case True
      with a0 c show ?thesis
        by (simp add: zero_pad3_def str_nat_small zero numeral_3_eq_3)
    next
      case False
      then have "str_nat (10 * b + c) = str_nat b @ [digit_char c]"
        using c by (simp add: str_nat_step)
      with a0 b show ?thesis
        by (simp add: zero_pad3_def str_nat_small zero)
    qed
  next
    case False
    have "100 * a + 10 * b + c = 10 * (10 * a + b) + c" by simp
    moreover have "str_nat (10 * (10 * a + b) + c) = str_nat (10 * a + b) @ [digit_char c]"
      using False c by (intro str_nat_step) simp_all
    moreover have "str_nat (10 * a + b) = str_nat a @ [digit_char b]"
      using False b by (simp add: str_nat_step)
    ultimately show ?thesis
      using a by (simp add: zero_pad3_def str_nat_small)
  qed
qed

lemma zero_pad3_small:
  assumes "p < 1000"
  shows "\<exists>a b c. is_digit a \<and> is_digit b \<and> is_digit c \<and> zero_pad3 p = [a, b, c]"
proof -
  define q where "q = p div 10"
  define a where "a = q div 10"
  define b where "b = q mod 10"
  define c where "c = p mod 10"
  have "p = 10 * q + c" by (simp add: q_def c_def)
  moreover have "q = 10 * a + b" by (simp add: a_def b_def)
  ultimately have p: "p = 100 * a + 10 * b + c" by simp
  have a: "a < 10" using assms by (simp add: a_def q_def div_mult2_eq [symmetric])
  have b: "b < 10" by (simp add: b_def)
  have c: "c < 10" by (simp add: c_def)
  have "zero_pad3 (100 * a + 10 * b + c) = [digit_char a, digit_char b, digit_char c]"
    using a b c by (rule zero_pad3_digits)
  with p have "zero_pad3 p = [digit_char a, digit_char b, digit_char c]" by simp
  moreover have "is_digit (digit_char a)" "is_digit (digit_char b)" "is_digit (digit_char c)"
    using a b c by (simp_all add: digit_char_is_digit)
  ultimately show ?thesis by blast
qed

lemma zero_pad3_large:
  assumes "1000 \<le> p"
  shows "\<exists>a b c d rest. is_digit d \<and> zero_pad3 p = a # b # c # d # rest"
proof -
  have "10 ^ 3 \<le> p" using assms by simp
  then have len: "3 < length (str_nat p)" by (rule length_str_nat_ge)
  obtain a t1 where t1: "str_nat p = a # t1"
    using len by (cases "str_nat p") auto
  obtain b t2 where t2: "t1 = b # t2"
    using len t1 by (cases t1) auto
  obtain c t3 where t3: "t2 = c # t3"
    using len t1 t2 by (cases t2) auto
  obtain d rest where t4: "t3 = d # rest"
    using len t1 t2 t3 by (cases t3) auto
  have s: "str_nat p = a # b # c # d # rest"
    using t1 t2 t3 t4 by simp
  then have "d \<in> set (str_nat p)" by simp
  then have "is_digit d" by (rule str_nat_digits)
  moreover have "zero_pad3 p = str_nat p" using len by (simp add: zero_pad3_def)
  ultimately show ?thesis using s by auto
qed

lemma Numerical_valid_iff:
  "Numerical_is_valid_filename filename \<longleftrightarrow>
     (\<exists>n<1000. \<exists>rest. filename = zero_pad3 n @ ''_'' @ rest)"
proof
  assume "Numerical_is_valid_filename filename"
  then obtain a b c rest where f: "filename = a # b # c # CHR ''_'' # rest"
    and d: "is_digit a" "is_digit b" "is_digit c"
    by (cases filename rule: Numerical_is_valid_filename.cases) auto
  from d(1) obtain x where x: "x < 10" "a = digit_char x"
    using is_digit_digit_char by blast
  from d(2) obtain y where y: "y < 10" "b = digit_char y"
    using is_digit_digit_char by blast
  from d(3) obtain z where z: "z < 10" "c = digit_char z"
    using is_digit_digit_char by blast
  have "zero_pad3 (100 * x + 10 * y + z) = [a, b, c]"
    using x y z by (simp add: zero_pad3_digits)
  moreover have "100 * x + 10 * y + z < 1000" using x y z by simp
  ultimately show "\<exists>n<1000. \<exists>rest. filename = zero_pad3 n @ ''_'' @ rest"
    using f by (intro exI[of _ "100 * x + 10 * y + z"] conjI exI[of _ rest]) simp_all
next
  assume "\<exists>n<1000. \<exists>rest. filename = zero_pad3 n @ ''_'' @ rest"
  then obtain n rest where n: "n < 1000" and f: "filename = zero_pad3 n @ ''_'' @ rest" by blast
  from zero_pad3_small [OF n] obtain a b c where
    "is_digit a" "is_digit b" "is_digit c" "zero_pad3 n = [a, b, c]" by blast
  with f show "Numerical_is_valid_filename filename" by simp
qed

lemma Numerical_valid_padded:
  "p < 1000 \<Longrightarrow> Numerical_is_valid_filename (zero_pad3 p @ ''_'' @ filename)"
proof -
  assume "p < 1000"
  from zero_pad3_small [OF this] obtain a b c where
    "is_digit a" "is_digit b" "is_digit c" "zero_pad3 p = [a, b, c]" by blast
  then show ?thesis by simp
qed

lemma Numerical_invalid_padded:
  "1000 \<le> p \<Longrightarrow> \<not> Numerical_is_valid_filename (zero_pad3 p @ ''_'' @ filename)"
proof -
  assume "1000 \<le> p"
  from zero_pad3_large [OF this] obtain a b c d rest where
    d: "is_digit d" and z: "zero_pad3 p = a # b # c # d # rest" by blast
  from d have "d \<noteq> CHR ''_''" using underscore_not_digit by auto
  with z show ?thesis by simp
qed

lemma str_1000: "str_nat 1000 = ''1000''"
proof -
  have "str_nat 1 = ''1''" by (simp add: str_nat_small digit_char_def)
  then have "str_nat 10 = ''10''"
    using str_nat_step [of 1 0] by (simp add: digit_char_def)
  then have "str_nat 100 = ''100''"
    using str_nat_step [of 10 0] by (simp add: digit_char_def)
  then show ?thesis
    using str_nat_step [of 100 0] by (simp add: digit_char_def)
qed

text \<open>
  C6 (amended). For the Numerical strategy a filename is valid if and only if it begins
  with a number below 1000 padded with zeros to three digits, followed by an underscore.
  For every position, the transform returns a valid filename unchanged, whatever number it
  carries, and prefixes an invalid one with the position padded to three digits and an
  underscore. Transforming a second time changes nothing exactly when the filename was
  valid or the position is below 1000: a position of four or more digits gives a prefix
  that is not valid, and the second transform prefixes again.
\<close>

theorem Numerical_strategy:
  "(Numerical_is_valid_filename filename \<longleftrightarrow>
      (\<exists>n<1000. \<exists>rest. filename = zero_pad3 n @ ''_'' @ rest)) \<and>
   (Numerical_is_valid_filename filename \<longrightarrow>
      Numerical_transform_migration_filename filename p = filename) \<and>
   (\<not> Numerical_is_valid_filename filename \<longrightarrow>
      Numerical_transform_migration_filename filename p = zero_pad3 p @ ''_'' @ filename) \<and>
   (Numerical_transform_migration_filename (Numerical_transform_migration_filename filename p) q
      = Numerical_transform_migration_filename filename p
    \<longleftrightarrow> Numerical_is_valid_filename filename \<or> p < 1000)"
proof (intro conjI)
  show "Numerical_is_valid_filename filename \<longleftrightarrow>
      (\<exists>n<1000. \<exists>rest. filename = zero_pad3 n @ ''_'' @ rest)"
    by (rule Numerical_valid_iff)
  show "Numerical_is_valid_filename filename \<longrightarrow>
      Numerical_transform_migration_filename filename p = filename"
    by (simp add: Numerical_transform_migration_filename_def)
  show "\<not> Numerical_is_valid_filename filename \<longrightarrow>
      Numerical_transform_migration_filename filename p = zero_pad3 p @ ''_'' @ filename"
    by (simp add: Numerical_transform_migration_filename_def)
  show "Numerical_transform_migration_filename (Numerical_transform_migration_filename filename p) q
      = Numerical_transform_migration_filename filename p
    \<longleftrightarrow> Numerical_is_valid_filename filename \<or> p < 1000"
  proof (cases "Numerical_is_valid_filename filename")
    case True
    then show ?thesis by (simp add: Numerical_transform_migration_filename_def)
  next
    case False
    note inv = this
    show ?thesis
    proof (cases "p < 1000")
      case True
      then show ?thesis
        using inv Numerical_valid_padded [of p filename]
        by (simp add: Numerical_transform_migration_filename_def)
    next
      case False
      then have "1000 \<le> p" by simp
      then have "\<not> Numerical_is_valid_filename (zero_pad3 p @ ''_'' @ filename)"
        by (rule Numerical_invalid_padded)
      then show ?thesis
        using inv False by (simp add: Numerical_transform_migration_filename_def)
    qed
  qed
qed

theorem Numerical_strategy_witness:
  "Numerical_is_valid_filename ''001_file.txt'' \<and>
   Numerical_transform_migration_filename ''001_file.txt'' 7 = ''001_file.txt'' \<and>
   \<not> Numerical_is_valid_filename ''abc_file.txt'' \<and>
   Numerical_transform_migration_filename ''abc_file.txt'' 2 = ''002_abc_file.txt'' \<and>
   Numerical_transform_migration_filename
     (Numerical_transform_migration_filename ''abc_file.txt'' 2) 5 = ''002_abc_file.txt''"
proof -
  have v: "Numerical_is_valid_filename ''001_file.txt''" by (simp add: is_digit_def)
  have i: "\<not> Numerical_is_valid_filename ''abc_file.txt''" by (simp add: is_digit_def)
  have z: "zero_pad3 2 = ''002''"
    by (simp add: zero_pad3_def str_nat_small digit_char_def numeral_2_eq_2)
  note t1 = Numerical_strategy [of "''001_file.txt''" 7 5]
  note t2 = Numerical_strategy [of "''abc_file.txt''" 2 5]
  from t1 v
  have 1: "Numerical_transform_migration_filename ''001_file.txt'' 7 = ''001_file.txt''"
    by blast
  from t2 i
  have "Numerical_transform_migration_filename ''abc_file.txt'' 2 =
      zero_pad3 2 @ ''_'' @ ''abc_file.txt''"
    by blast
  with z
  have 2: "Numerical_transform_migration_filename ''abc_file.txt'' 2 = ''002_abc_file.txt''"
    by simp
  have "(2::nat) < 1000" by simp
  with t2
  have "Numerical_transform_migration_filename
     (Numerical_transform_migration_filename ''abc_file.txt'' 2) 5 =
     Numerical_transform_migration_filename ''abc_file.txt'' 2"
    by blast
  with 2
  have 3: "Numerical_transform_migration_filename
     (Numerical_transform_migration_filename ''abc_file.txt'' 2) 5 = ''002_abc_file.txt''"
    by simp
  from v i 1 2 3 show ?thesis by blast
qed

text \<open>
  The claim C6 as first stated, that the transform is idempotent for every position,
  fails at position 1000 on \<^verbatim>\<open>file.txt\<close>: the first transform gives
  \<^verbatim>\<open>1000_file.txt\<close>, the second \<^verbatim>\<open>1000_1000_file.txt\<close>.
\<close>

theorem Numerical_idempotent_counterexample:
  "Numerical_transform_migration_filename
     (Numerical_transform_migration_filename ''file.txt'' 1000) 1000 = ''1000_1000_file.txt'' \<and>
   Numerical_transform_migration_filename ''file.txt'' 1000 = ''1000_file.txt'' \<and>
   Numerical_transform_migration_filename
     (Numerical_transform_migration_filename ''file.txt'' 1000) 1000 \<noteq>
   Numerical_transform_migration_filename ''file.txt'' 1000"
  by (simp add: Numerical_transform_migration_filename_def zero_pad3_def str_1000 is_digit_def)

lemma dtu_iff:
  "digits_then_underscore n s \<longleftrightarrow>
     n \<le> length (takeWhile is_digit s) \<and> (\<exists>rest. dropWhile is_digit s = CHR ''_'' # rest)"
proof (induction s arbitrary: n)
  case Nil
  show ?case by simp
next
  case (Cons c cs)
  show ?case
  proof (cases "is_digit c")
    case True
    then show ?thesis using Cons [of "n - 1"] by auto
  next
    case False
    then show ?thesis by auto
  qed
qed

text \<open>
  C7. For the Unix strategy a filename is valid if and only if its leading run of digits
  has at least 10 digits and is followed by an underscore; \<^verbatim>\<open>12345_file.txt\<close>, with
  5 digits, is not valid; and the transform returns a valid filename unchanged for every
  position.
\<close>

theorem Unix_strategy:
  "(Unix_is_valid_filename filename \<longleftrightarrow>
      10 \<le> length (takeWhile is_digit filename) \<and>
      (\<exists>rest. dropWhile is_digit filename = CHR ''_'' # rest)) \<and>
   \<not> Unix_is_valid_filename ''12345_file.txt'' \<and>
   (Unix_is_valid_filename filename \<longrightarrow>
      Unix_transform_migration_filename stamp filename position = filename)"
  by (simp add: Unix_is_valid_filename_def dtu_iff Unix_transform_migration_filename_def is_digit_def)

theorem Unix_strategy_witness:
  "Unix_is_valid_filename ''1234567890_file.txt'' \<and>
   Unix_transform_migration_filename (\<lambda>f p. []) ''1234567890_file.txt'' 1 = ''1234567890_file.txt''"
proof -
  have v: "Unix_is_valid_filename ''1234567890_file.txt''"
    by (simp add: Unix_is_valid_filename_def is_digit_def)
  with Unix_strategy [of "''1234567890_file.txt''" "\<lambda>f p. []" 1] show ?thesis by blast
qed

section \<open>The business-rule engine: dependencies and invocations\<close>




















section \<open>UTF-8: encoding and decoding are inverse to each other\<close>

lemma unat_byte: "n < 256 \<Longrightarrow> unat (of_nat n :: byte) = n"
  by (simp add: unat_of_nat)

lemma byte_of_unat: "unat (b :: byte) = n \<Longrightarrow> of_nat n = b"
  by auto

lemma unat_byte_less: "unat (b :: byte) < 256"
proof -
  have "unat b < 2 ^ LENGTH(8)" by (rule unsigned_less)
  then show ?thesis by simp
qed

lemma div64: "c < 64 \<Longrightarrow> (n * 64 + c) div 64 = (n::nat)"
  by simp

lemma mod64: "c < 64 \<Longrightarrow> (n * 64 + c) mod 64 = (c::nat)"
  by simp

lemma div4096: "n div 4096 = n div 64 div (64::nat)"
  by (simp add: div_mult2_eq [symmetric])

lemma div262144: "n div 262144 = n div 64 div 64 div (64::nat)"
  by (simp add: div_mult2_eq [symmetric])

text \<open>Decoding one encoded character, for bytes given by their values.\<close>

lemma decode1_gen:
  assumes "unat b0 = cp" and "cp < 0x80"
  shows "utf8_decode (b0 # r) = map_option (Cons cp) (utf8_decode r)"
  using assms by simp

lemma decode2_gen:
  assumes "unat b0 = 0xC0 + a" and "a < 32" and "unat b1 = 0x80 + b" and "b < 64"
    and "0x80 \<le> a * 64 + b"
  shows "utf8_decode (b0 # b1 # r) = map_option (Cons (a * 64 + b)) (utf8_decode r)"
proof -
  have c: "code_point2 b0 b1 = a * 64 + b"
    by (simp add: code_point2_def assms(1,3))
  have k: "is_continuation b1"
    using assms(4) by (simp add: is_continuation_def assms(3))
  show ?thesis
    using assms(2,5) by (simp add: assms(1) c k)
qed

lemma decode3_gen:
  assumes "unat b0 = 0xE0 + a" and "a < 16" and "unat b1 = 0x80 + b" and "b < 64"
    and "unat b2 = 0x80 + c" and "c < 64"
    and "0x800 \<le> (a * 64 + b) * 64 + c"
    and "\<not> (0xD800 \<le> (a * 64 + b) * 64 + c \<and> (a * 64 + b) * 64 + c < 0xE000)"
  shows "utf8_decode (b0 # b1 # b2 # r) =
     map_option (Cons ((a * 64 + b) * 64 + c)) (utf8_decode r)"
proof -
  have c: "code_point3 b0 b1 b2 = (a * 64 + b) * 64 + c"
    by (simp add: code_point3_def assms(1,3,5))
  have k: "is_continuation b1" "is_continuation b2"
    using assms(4,6) by (simp_all add: is_continuation_def assms(3,5))
  have s: "\<not> unat b0 < 0x80" "\<not> unat b0 < 0xC0" "\<not> unat b0 < 0xE0" "unat b0 < 0xF0"
    using assms(2) by (simp_all add: assms(1))
  show ?thesis
    unfolding utf8_decode.simps(2) [of b0] using assms(7,8) s
    by (simp only: c k if_True if_False list.case simp_thms)
qed

lemma decode4_gen:
  assumes "unat b0 = 0xF0 + a" and "a < 8" and "unat b1 = 0x80 + b" and "b < 64"
    and "unat b2 = 0x80 + c" and "c < 64" and "unat b3 = 0x80 + d" and "d < 64"
    and "0x10000 \<le> ((a * 64 + b) * 64 + c) * 64 + d"
    and "((a * 64 + b) * 64 + c) * 64 + d < 0x110000"
  shows "utf8_decode (b0 # b1 # b2 # b3 # r) =
     map_option (Cons (((a * 64 + b) * 64 + c) * 64 + d)) (utf8_decode r)"
proof -
  have c: "code_point4 b0 b1 b2 b3 = ((a * 64 + b) * 64 + c) * 64 + d"
    by (simp add: code_point4_def assms(1,3,5,7))
  have k: "is_continuation b1" "is_continuation b2" "is_continuation b3"
    using assms(4,6,8) by (simp_all add: is_continuation_def assms(3,5,7))
  have s: "\<not> unat b0 < 0x80" "\<not> unat b0 < 0xC0" "\<not> unat b0 < 0xE0" "\<not> unat b0 < 0xF0"
    "unat b0 < 0xF8"
    using assms(2) by (simp_all add: assms(1))
  show ?thesis
    unfolding utf8_decode.simps(2) [of b0] using assms(9,10) s
    by (simp only: c k if_True if_False list.case simp_thms)
qed


lemma encode_char_cases:
  assumes "utf8_encode_char cp = Some e"
  obtains (one) "cp < 0x80" "e = [of_nat cp]"
  | (two) "0x80 \<le> cp" "cp < 0x800"
      "e = [of_nat (0xC0 + cp div 64), of_nat (0x80 + cp mod 64)]"
  | (three) "0x800 \<le> cp" "cp < 0x10000" "\<not> (0xD800 \<le> cp \<and> cp < 0xE000)"
      "e = [of_nat (0xE0 + cp div 4096), of_nat (0x80 + cp div 64 mod 64),
            of_nat (0x80 + cp mod 64)]"
  | (four) "0x10000 \<le> cp" "cp < 0x110000"
      "e = [of_nat (0xF0 + cp div 262144), of_nat (0x80 + cp div 4096 mod 64),
            of_nat (0x80 + cp div 64 mod 64), of_nat (0x80 + cp mod 64)]"
proof -
  consider "cp < 0x80" | "\<not> cp < 0x80" "cp < 0x800"
    | "\<not> cp < 0x80" "\<not> cp < 0x800" "0xD800 \<le> cp \<and> cp < 0xE000"
    | "\<not> cp < 0x80" "\<not> cp < 0x800" "\<not> (0xD800 \<le> cp \<and> cp < 0xE000)" "cp < 0x10000"
    | "\<not> cp < 0x80" "\<not> cp < 0x800" "\<not> (0xD800 \<le> cp \<and> cp < 0xE000)" "\<not> cp < 0x10000"
      "cp < 0x110000"
    | "\<not> cp < 0x80" "\<not> cp < 0x800" "\<not> (0xD800 \<le> cp \<and> cp < 0xE000)" "\<not> cp < 0x10000"
      "\<not> cp < 0x110000"
    by blast
  then show ?thesis
  proof cases
    case 1
    have "utf8_encode_char cp = Some [of_nat cp]"
      unfolding utf8_encode_char_def by (simp only: 1 if_True)
    with assms have "e = [of_nat cp]" by (simp only: option.inject)
    with 1 show ?thesis by (rule one)
  next
    case 2
    have "utf8_encode_char cp = Some [of_nat (0xC0 + cp div 64), of_nat (0x80 + cp mod 64)]"
      unfolding utf8_encode_char_def by (simp only: 2 if_True if_False)
    with assms have "e = [of_nat (0xC0 + cp div 64), of_nat (0x80 + cp mod 64)]"
      by (simp only: option.inject)
    moreover have "0x80 \<le> cp" using 2(1) by simp
    ultimately show ?thesis using 2(2) by (intro two)
  next
    case 3
    have "utf8_encode_char cp = None"
      unfolding utf8_encode_char_def by (simp only: 3 if_True if_False simp_thms)
    with assms show ?thesis by simp
  next
    case 4
    have "utf8_encode_char cp =
        Some [of_nat (0xE0 + cp div 4096), of_nat (0x80 + cp div 64 mod 64),
              of_nat (0x80 + cp mod 64)]"
      unfolding utf8_encode_char_def by (simp only: 4 if_True if_False)
    with assms have "e = [of_nat (0xE0 + cp div 4096), of_nat (0x80 + cp div 64 mod 64),
              of_nat (0x80 + cp mod 64)]"
      by (simp only: option.inject)
    moreover have "0x800 \<le> cp" using 4(2) by simp
    ultimately show ?thesis using 4(3,4) by (intro three)
  next
    case 5
    have "utf8_encode_char cp =
        Some [of_nat (0xF0 + cp div 262144), of_nat (0x80 + cp div 4096 mod 64),
            of_nat (0x80 + cp div 64 mod 64), of_nat (0x80 + cp mod 64)]"
      unfolding utf8_encode_char_def by (simp only: 5 if_True if_False)
    with assms have "e = [of_nat (0xF0 + cp div 262144), of_nat (0x80 + cp div 4096 mod 64),
            of_nat (0x80 + cp div 64 mod 64), of_nat (0x80 + cp mod 64)]"
      by (simp only: option.inject)
    moreover have "0x10000 \<le> cp" using 5(4) by simp
    ultimately show ?thesis using 5(5) by (intro four)
  next
    case 6
    have "utf8_encode_char cp = None"
      unfolding utf8_encode_char_def by (simp only: 6 if_True if_False simp_thms)
    with assms show ?thesis by simp
  qed
qed

lemma decode_encode_char:
  assumes "utf8_encode_char cp = Some e"
  shows "utf8_decode (e @ r) = map_option (Cons cp) (utf8_decode r)"
  using assms
proof (cases rule: encode_char_cases)
  case one
  have "unat (of_nat cp :: byte) = cp" using one(1) by (intro unat_byte) simp
  then have "utf8_decode (of_nat cp # r) = map_option (Cons cp) (utf8_decode r)"
    using one(1) by (rule decode1_gen)
  then show ?thesis unfolding one(2) by (simp only: append_Cons append_Nil)
next
  case two
  define a where "a = cp div 64"
  define b where "b = cp mod 64"
  have a: "a < 32" using two(2) by (simp add: a_def)
  have b: "b < 64" by (simp add: b_def)
  have cp: "a * 64 + b = cp" by (simp add: a_def b_def)
  have u0: "unat (of_nat (0xC0 + a) :: byte) = 0xC0 + a" using a by (intro unat_byte) simp
  have u1: "unat (of_nat (0x80 + b) :: byte) = 0x80 + b" using b by (intro unat_byte) simp
  have "0x80 \<le> a * 64 + b" using two(1) cp by simp
  with u0 a u1 b have "utf8_decode (of_nat (0xC0 + a) # of_nat (0x80 + b) # r) =
      map_option (Cons (a * 64 + b)) (utf8_decode r)"
    by (rule decode2_gen)
  then show ?thesis
    unfolding two(3) cp unfolding a_def b_def by (simp only: append_Cons append_Nil)
next
  case three
  define n where "n = cp div 64"
  define a where "a = n div 64"
  define b where "b = n mod 64"
  define c where "c = cp mod 64"
  have n: "n < 1024" using three(2) by (simp add: n_def)
  have a: "a < 16" using n by (simp add: a_def)
  have b: "b < 64" by (simp add: b_def)
  have c: "c < 64" by (simp add: c_def)
  have "a * 64 + b = n" by (simp add: a_def b_def)
  moreover have "n * 64 + c = cp" by (simp add: n_def c_def)
  ultimately have cp: "(a * 64 + b) * 64 + c = cp" by simp
  have u0: "unat (of_nat (0xE0 + a) :: byte) = 0xE0 + a" using a by (intro unat_byte) simp
  have u1: "unat (of_nat (0x80 + b) :: byte) = 0x80 + b" using b by (intro unat_byte) simp
  have u2: "unat (of_nat (0x80 + c) :: byte) = 0x80 + c" using c by (intro unat_byte) simp
  have lo: "0x800 \<le> (a * 64 + b) * 64 + c" using three(1) cp by simp
  have ns: "\<not> (0xD800 \<le> (a * 64 + b) * 64 + c \<and> (a * 64 + b) * 64 + c < 0xE000)"
    using three(3) cp by simp
  from u0 a u1 b u2 c lo ns
  have "utf8_decode (of_nat (0xE0 + a) # of_nat (0x80 + b) # of_nat (0x80 + c) # r) =
      map_option (Cons ((a * 64 + b) * 64 + c)) (utf8_decode r)"
    by (rule decode3_gen)
  moreover have "cp div 4096 = a" by (simp add: div4096 a_def n_def)
  moreover have "cp div 64 mod 64 = b" by (simp add: b_def n_def)
  moreover have "cp mod 64 = c" by (simp add: c_def)
  ultimately show ?thesis
    unfolding three(4) cp by (simp only: append_Cons append_Nil)
next
  case four
  define m where "m = cp div 64"
  define n where "n = m div 64"
  define a where "a = n div 64"
  define b where "b = n mod 64"
  define c where "c = m mod 64"
  define d where "d = cp mod 64"
  have m: "m < 17408" using four(2) by (simp add: m_def)
  have n: "n < 272" using m by (simp add: n_def)
  have a: "a < 8" using n by (simp add: a_def)
  have b: "b < 64" by (simp add: b_def)
  have c: "c < 64" by (simp add: c_def)
  have d: "d < 64" by (simp add: d_def)
  have "a * 64 + b = n" by (simp add: a_def b_def)
  moreover have "n * 64 + c = m" by (simp add: n_def c_def)
  moreover have "m * 64 + d = cp" by (simp add: m_def d_def)
  ultimately have cp: "((a * 64 + b) * 64 + c) * 64 + d = cp" by simp
  have u0: "unat (of_nat (0xF0 + a) :: byte) = 0xF0 + a" using a by (intro unat_byte) simp
  have u1: "unat (of_nat (0x80 + b) :: byte) = 0x80 + b" using b by (intro unat_byte) simp
  have u2: "unat (of_nat (0x80 + c) :: byte) = 0x80 + c" using c by (intro unat_byte) simp
  have u3: "unat (of_nat (0x80 + d) :: byte) = 0x80 + d" using d by (intro unat_byte) simp
  have lo: "0x10000 \<le> ((a * 64 + b) * 64 + c) * 64 + d" using four(1) cp by simp
  have hi: "((a * 64 + b) * 64 + c) * 64 + d < 0x110000" using four(2) cp by simp
  from u0 a u1 b u2 c u3 d lo hi
  have "utf8_decode (of_nat (0xF0 + a) # of_nat (0x80 + b) # of_nat (0x80 + c)
        # of_nat (0x80 + d) # r) =
      map_option (Cons (((a * 64 + b) * 64 + c) * 64 + d)) (utf8_decode r)"
    by (rule decode4_gen)
  moreover have "cp div 262144 = a" by (simp add: div262144 a_def n_def m_def)
  moreover have "cp div 4096 mod 64 = b" by (simp add: div4096 b_def n_def m_def)
  moreover have "cp div 64 mod 64 = c" by (simp add: c_def m_def)
  moreover have "cp mod 64 = d" by (simp add: d_def)
  ultimately show ?thesis
    unfolding four(3) cp by (simp only: append_Cons append_Nil)
qed

lemma utf8_decode_encode: "str_encode t = Some bs \<Longrightarrow> utf8_decode bs = Some t"
proof (induction t arbitrary: bs)
  case Nil
  then show ?case by simp
next
  case (Cons cp t)
  from Cons.prems obtain e r where e: "utf8_encode_char cp = Some e"
    and r: "str_encode t = Some r" and bs: "bs = e @ r"
    by (auto split: option.splits)
  from r have "utf8_decode r = Some t" by (rule Cons.IH)
  with decode_encode_char [OF e, of r] show ?case
    unfolding bs by simp
qed

lemma str_encode_inject:
  "str_encode t = Some bs \<Longrightarrow> str_encode t' = Some bs \<Longrightarrow> t = t'"
proof -
  assume a: "str_encode t = Some bs" and b: "str_encode t' = Some bs"
  from a have "utf8_decode bs = Some t" by (rule utf8_decode_encode)
  moreover from b have "utf8_decode bs = Some t'" by (rule utf8_decode_encode)
  ultimately show "t = t'" by simp
qed


lemma utf8_decode_Cons_cases:
  assumes "utf8_decode (b0 # bs) = Some t"
  obtains (one) t' where "unat b0 < 0x80" "utf8_decode bs = Some t'" "t = unat b0 # t'"
  | (two) b1 r t' where "bs = b1 # r" "0xC0 \<le> unat b0" "unat b0 < 0xE0"
      "is_continuation b1" "0x80 \<le> code_point2 b0 b1"
      "utf8_decode r = Some t'" "t = code_point2 b0 b1 # t'"
  | (three) b1 b2 r t' where "bs = b1 # b2 # r" "0xE0 \<le> unat b0" "unat b0 < 0xF0"
      "is_continuation b1" "is_continuation b2" "0x800 \<le> code_point3 b0 b1 b2"
      "\<not> (0xD800 \<le> code_point3 b0 b1 b2 \<and> code_point3 b0 b1 b2 < 0xE000)"
      "utf8_decode r = Some t'" "t = code_point3 b0 b1 b2 # t'"
  | (four) b1 b2 b3 r t' where "bs = b1 # b2 # b3 # r" "0xF0 \<le> unat b0" "unat b0 < 0xF8"
      "is_continuation b1" "is_continuation b2" "is_continuation b3"
      "0x10000 \<le> code_point4 b0 b1 b2 b3" "code_point4 b0 b1 b2 b3 < 0x110000"
      "utf8_decode r = Some t'" "t = code_point4 b0 b1 b2 b3 # t'"
proof -
  consider "unat b0 < 0x80" | "\<not> unat b0 < 0x80" "unat b0 < 0xC0"
    | "\<not> unat b0 < 0x80" "\<not> unat b0 < 0xC0" "unat b0 < 0xE0"
    | "\<not> unat b0 < 0x80" "\<not> unat b0 < 0xC0" "\<not> unat b0 < 0xE0" "unat b0 < 0xF0"
    | "\<not> unat b0 < 0x80" "\<not> unat b0 < 0xC0" "\<not> unat b0 < 0xE0" "\<not> unat b0 < 0xF0"
      "unat b0 < 0xF8"
    | "\<not> unat b0 < 0x80" "\<not> unat b0 < 0xC0" "\<not> unat b0 < 0xE0" "\<not> unat b0 < 0xF0"
      "\<not> unat b0 < 0xF8"
    by blast
  then show ?thesis
  proof cases
    case 1
    with assms obtain t' where "utf8_decode bs = Some t'" "t = unat b0 # t'"
      by auto
    with 1 show ?thesis by (rule one)
  next
    case 2
    with assms show ?thesis by simp
  next
    case 3
    with assms obtain b1 r where bs: "bs = b1 # r"
      by (cases bs) auto
    from assms 3 have c: "is_continuation b1 \<and> 0x80 \<le> code_point2 b0 b1"
      unfolding bs by (auto split: if_splits)
    with assms 3 obtain t' where "utf8_decode r = Some t'" "t = code_point2 b0 b1 # t'"
      unfolding bs by auto
    moreover have "0xC0 \<le> unat b0" using 3(2) by simp
    ultimately show ?thesis using bs 3(3) c by (intro two) simp_all
  next
    case 4
    with assms obtain b1 b2 r where bs: "bs = b1 # b2 # r"
      by (cases bs; cases "tl bs") auto
    from assms 4 have c: "is_continuation b1 \<and> is_continuation b2
        \<and> 0x800 \<le> code_point3 b0 b1 b2
        \<and> \<not> (0xD800 \<le> code_point3 b0 b1 b2 \<and> code_point3 b0 b1 b2 < 0xE000)"
      unfolding bs by (auto split: if_splits)
    with assms 4 obtain t' where "utf8_decode r = Some t'" "t = code_point3 b0 b1 b2 # t'"
      unfolding bs by auto
    moreover have "0xE0 \<le> unat b0" using 4(3) by simp
    ultimately show ?thesis using bs 4(4) c by (intro three) simp_all
  next
    case 5
    with assms obtain b1 b2 b3 r where bs: "bs = b1 # b2 # b3 # r"
      by (cases bs; cases "tl bs"; cases "tl (tl bs)") auto
    from assms 5 have c: "is_continuation b1 \<and> is_continuation b2 \<and> is_continuation b3
        \<and> 0x10000 \<le> code_point4 b0 b1 b2 b3 \<and> code_point4 b0 b1 b2 b3 < 0x110000"
      unfolding bs by (auto split: if_splits)
    with assms 5 obtain t' where "utf8_decode r = Some t'" "t = code_point4 b0 b1 b2 b3 # t'"
      unfolding bs by auto
    moreover have "0xF0 \<le> unat b0" using 5(4) by simp
    ultimately show ?thesis using bs 5(5) c by (intro four) simp_all
  next
    case 6
    with assms show ?thesis by simp
  qed
qed


lemma continuation_split:
  assumes "is_continuation b"
  obtains x where "x < 64" "unat b = 0x80 + x"
proof -
  have "unat b - 0x80 < 64"
    using assms unfolding is_continuation_def by arith
  moreover have "unat b = 0x80 + (unat b - 0x80)"
    using assms unfolding is_continuation_def by arith
  ultimately show ?thesis by (rule that)
qed

lemma encode1_gen: "unat b0 < 0x80 \<Longrightarrow> utf8_encode_char (unat b0) = Some [b0]"
  by (simp add: utf8_encode_char_def)

lemma encode2_gen:
  assumes "0xC0 \<le> unat b0" and "unat b0 < 0xE0" and "is_continuation b1"
    and "0x80 \<le> code_point2 b0 b1"
  shows "utf8_encode_char (code_point2 b0 b1) = Some [b0, b1]"
proof -
  define a where "a = unat b0 - 0xC0"
  have a: "a < 32" "unat b0 = 0xC0 + a" using assms(1,2) by (simp_all add: a_def)
  from assms(3) obtain b where b: "b < 64" "unat b1 = 0x80 + b" by (rule continuation_split)
  define cp where "cp = code_point2 b0 b1"
  have cp: "cp = a * 64 + b" by (simp add: cp_def code_point2_def a(2) b(2))
  have r: "\<not> cp < 0x80" "cp < 0x800" using assms(4) a(1) b(1) by (simp_all add: cp cp_def [symmetric])
  have d: "cp div 64 = a" "cp mod 64 = b" using b(1) by (simp_all add: cp)
  have "of_nat (0xC0 + a) = b0" by (rule byte_of_unat) (rule a(2))
  moreover have "of_nat (0x80 + b) = b1" by (rule byte_of_unat) (rule b(2))
  ultimately have "utf8_encode_char cp = Some [b0, b1]"
    unfolding utf8_encode_char_def by (simp only: r d if_True if_False)
  then show ?thesis by (simp only: cp_def)
qed

lemma encode3_gen:
  assumes "0xE0 \<le> unat b0" and "unat b0 < 0xF0" and "is_continuation b1"
    and "is_continuation b2" and "0x800 \<le> code_point3 b0 b1 b2"
    and "\<not> (0xD800 \<le> code_point3 b0 b1 b2 \<and> code_point3 b0 b1 b2 < 0xE000)"
  shows "utf8_encode_char (code_point3 b0 b1 b2) = Some [b0, b1, b2]"
proof -
  define a where "a = unat b0 - 0xE0"
  have a: "a < 16" "unat b0 = 0xE0 + a" using assms(1,2) by (simp_all add: a_def)
  from assms(3) obtain b where b: "b < 64" "unat b1 = 0x80 + b" by (rule continuation_split)
  from assms(4) obtain c where c: "c < 64" "unat b2 = 0x80 + c" by (rule continuation_split)
  define cp where "cp = code_point3 b0 b1 b2"
  have cp: "cp = (a * 64 + b) * 64 + c"
    by (simp add: cp_def code_point3_def a(2) b(2) c(2))
  have r: "\<not> cp < 0x80" "\<not> cp < 0x800" "cp < 0x10000"
    using assms(5) a(1) b(1) c(1) by (simp_all add: cp cp_def [symmetric])
  have s: "(0xD800 \<le> cp \<and> cp < 0xE000) = False"
    using assms(6) by (simp add: cp_def)
  have e1: "cp div 64 = a * 64 + b" unfolding cp using c(1) by (rule div64)
  have e2: "cp div 64 div 64 = a" unfolding e1 using b(1) by (rule div64)
  have m1: "cp mod 64 = c" unfolding cp using c(1) by (rule mod64)
  have m2: "cp div 64 mod 64 = b" unfolding e1 using b(1) by (rule mod64)
  have d: "cp div 4096 = a" "cp div 64 mod 64 = b" "cp mod 64 = c"
    by (simp_all only: div4096 e2 m2 m1)
  have "of_nat (0xE0 + a) = b0" by (rule byte_of_unat) (rule a(2))
  moreover have "of_nat (0x80 + b) = b1" by (rule byte_of_unat) (rule b(2))
  moreover have "of_nat (0x80 + c) = b2" by (rule byte_of_unat) (rule c(2))
  ultimately have "utf8_encode_char cp = Some [b0, b1, b2]"
    unfolding utf8_encode_char_def by (simp only: r s d if_True if_False)
  then show ?thesis by (simp only: cp_def)
qed

lemma encode4_gen:
  assumes "0xF0 \<le> unat b0" and "unat b0 < 0xF8" and "is_continuation b1"
    and "is_continuation b2" and "is_continuation b3"
    and "0x10000 \<le> code_point4 b0 b1 b2 b3" and "code_point4 b0 b1 b2 b3 < 0x110000"
  shows "utf8_encode_char (code_point4 b0 b1 b2 b3) = Some [b0, b1, b2, b3]"
proof -
  define a where "a = unat b0 - 0xF0"
  have a: "a < 8" "unat b0 = 0xF0 + a" using assms(1,2) by (simp_all add: a_def)
  from assms(3) obtain b where b: "b < 64" "unat b1 = 0x80 + b" by (rule continuation_split)
  from assms(4) obtain c where c: "c < 64" "unat b2 = 0x80 + c" by (rule continuation_split)
  from assms(5) obtain d where d: "d < 64" "unat b3 = 0x80 + d" by (rule continuation_split)
  define cp where "cp = code_point4 b0 b1 b2 b3"
  have cp: "cp = ((a * 64 + b) * 64 + c) * 64 + d"
    by (simp add: cp_def code_point4_def a(2) b(2) c(2) d(2))
  have r: "\<not> cp < 0x80" "\<not> cp < 0x800" "\<not> cp < 0x10000" "cp < 0x110000"
    using assms(6,7) by (simp_all add: cp_def)
  have s: "(0xD800 \<le> cp \<and> cp < 0xE000) = False"
    using assms(6) by (simp add: cp_def)
  have e1: "cp div 64 = (a * 64 + b) * 64 + c" unfolding cp using d(1) by (rule div64)
  have e2: "cp div 64 div 64 = a * 64 + b" unfolding e1 using c(1) by (rule div64)
  have e3: "cp div 64 div 64 div 64 = a" unfolding e2 using b(1) by (rule div64)
  have m1: "cp mod 64 = d" unfolding cp using d(1) by (rule mod64)
  have m2: "cp div 64 mod 64 = c" unfolding e1 using c(1) by (rule mod64)
  have m3: "cp div 64 div 64 mod 64 = b" unfolding e2 using b(1) by (rule mod64)
  have dm: "cp div 262144 = a" "cp div 4096 mod 64 = b" "cp div 64 mod 64 = c"
    "cp mod 64 = d"
    by (simp_all only: div262144 div4096 e3 m3 m2 m1)
  have "of_nat (0xF0 + a) = b0" by (rule byte_of_unat) (rule a(2))
  moreover have "of_nat (0x80 + b) = b1" by (rule byte_of_unat) (rule b(2))
  moreover have "of_nat (0x80 + c) = b2" by (rule byte_of_unat) (rule c(2))
  moreover have "of_nat (0x80 + d) = b3" by (rule byte_of_unat) (rule d(2))
  ultimately have "utf8_encode_char cp = Some [b0, b1, b2, b3]"
    unfolding utf8_encode_char_def by (simp only: r s dm if_True if_False)
  then show ?thesis by (simp only: cp_def)
qed

lemma str_encode_decode: "utf8_decode bs = Some t \<Longrightarrow> str_encode t = Some bs"
proof (induction bs arbitrary: t rule: length_induct)
  case (1 bs)
  show ?case
  proof (cases bs)
    case Nil
    with "1.prems" show ?thesis by simp
  next
    case (Cons b0 rest)
    from "1.prems" have "utf8_decode (b0 # rest) = Some t" by (simp add: Cons)
    then show ?thesis
    proof (cases rule: utf8_decode_Cons_cases)
      case (one t')
      have "length rest < length bs" by (simp add: Cons)
      with "1.IH" one(2) have "str_encode t' = Some rest" by blast
      with encode1_gen [OF one(1)] show ?thesis
        by (simp add: Cons one(3))
    next
      case (two b1 r t')
      have "length r < length bs" by (simp add: Cons two(1))
      with "1.IH" two(6) have "str_encode t' = Some r" by blast
      with encode2_gen [OF two(2,3,4,5)] show ?thesis
        by (simp add: Cons two(1,7))
    next
      case (three b1 b2 r t')
      have "length r < length bs" by (simp add: Cons three(1))
      with "1.IH" three(8) have "str_encode t' = Some r" by blast
      with encode3_gen [OF three(2,3,4,5,6,7)] show ?thesis
        by (simp add: Cons three(1,9))
    next
      case (four b1 b2 b3 r t')
      have "length r < length bs" by (simp add: Cons four(1))
      with "1.IH" four(9) have "str_encode t' = Some r" by blast
      with encode4_gen [OF four(2,3,4,5,6,7,8)] show ?thesis
        by (simp add: Cons four(1,10))
    qed
  qed
qed

lemma utf8_decode_inject:
  "utf8_decode bs = Some t \<Longrightarrow> utf8_decode bs' = Some t \<Longrightarrow> bs = bs'"
proof -
  assume a: "utf8_decode bs = Some t" and b: "utf8_decode bs' = Some t"
  from a have "str_encode t = Some bs" by (rule str_encode_decode)
  moreover from b have "str_encode t = Some bs'" by (rule str_encode_decode)
  ultimately show "bs = bs'" by simp
qed

section \<open>The checksum service: digests\<close>

lemma length_le_bytes32: "length (le_bytes32 w) = 4"
  by (simp add: le_bytes32_def)

lemma length_md5_digest: "length (md5_digest msg) = 16"
proof -
  obtain a b c d where "md5_blocks md5_init (md5_pad msg) = (a, b, c, d)"
    by (cases "md5_blocks md5_init (md5_pad msg)") auto
  then show ?thesis
    by (simp add: md5_digest_def length_le_bytes32)
qed

lemma length_hexdigest: "length (hexdigest bs) = 2 * length bs"
  by (induction bs) (simp_all add: hexdigest_def)

lemma hex_digit_in: "n < 16 \<Longrightarrow> hex_digit n \<in> set ''0123456789abcdef''"
  unfolding hex_digit_def by (rule nth_mem) simp

lemma set_hexdigest: "set (hexdigest bs) \<subseteq> set ''0123456789abcdef''"
proof (induction bs)
  case Nil
  show ?case by (simp add: hexdigest_def)
next
  case (Cons b bs)
  have "unat b < 2 ^ LENGTH(8)" by (rule unsigned_less)
  then have "unat b < 256" by simp
  then have hi: "unat b div 16 < 16" by simp
  have lo: "unat b mod 16 < 16" by simp
  have step: "hexdigest (b # bs) =
      hex_digit (unat b div 16) # hex_digit (unat b mod 16) # hexdigest bs"
    by (simp add: hexdigest_def)
  show ?case
    unfolding step using hex_digit_in [OF hi] hex_digit_in [OF lo] Cons.IH by simp
qed

lemma md5_step_norm:
  "md5_step M (a, b, c, d) i =
     (d, word_of_nat (unat (b + rotl32 (word_of_nat
            (unat (a + md5_f i b c d + md5_K ! i + M ! md5_g i))) (md5_s ! i))), b, c)"
  by (simp add: md5_step_def)

lemma replicate_num: "replicate (numeral k) x = x # replicate (pred_numeral k) x"
  by (simp add: numeral_eq_Suc)

lemmas md5_eval = md5_step_norm md5_init_def md5_f_def md5_g_def md5_K_def md5_s_def rotl32_def
  md5_rounds.simps md5_block_def md5_blocks.simps md5_add_def md5_pad_def le_bytes64_def
  le_bytes32_def md5_digest_def hexdigest_def hex_digit_def replicate_num

text \<open>The digests of the empty message and of \<^verbatim>\<open>abc\<close>, as in RFC 1321.\<close>

lemma md5_empty: "hexdigest (md5_digest []) = ''d41d8cd98f00b204e9800998ecf8427e''"
  by (simp add: md5_eval)

lemma md5_abc: "hexdigest (md5_digest [0x61, 0x62, 0x63]) = ''900150983cd24fb0d6963f7d28e17f72''"
  by (simp add: md5_eval)


lemma md5_abc_space:
  "hexdigest (md5_digest [0x61, 0x62, 0x63, 0x20]) = ''28a53e303da9f5742476fd6b62434540''"
  by (simp add: md5_eval)

lemma md5_a_newline:
  "hexdigest (md5_digest [0x61, 0x0A]) = ''60b725f10c9c85c70d97880dfe8191b3''"
  by (simp add: md5_eval)

lemma md5_bytes_A:
  "hexdigest (md5_digest
      [84, 69, 88, 84, 67, 79, 76, 76, 66, 89, 102, 71, 105, 74, 85, 69, 84, 72,
       81, 52, 104, 65, 99, 75, 83, 77, 100, 53, 122, 89, 112, 103, 113, 102, 49, 89,
       82, 68, 104, 107, 109, 120, 72, 107, 104, 80, 87, 112, 116, 114, 107, 111, 121, 122,
       50, 56, 119, 110, 73, 57, 86, 48, 97, 72, 101, 65, 117, 97, 75, 110, 97, 107]) =
   ''faad49866e9498fc1719f5289e7a0269''"
  by (simp add: md5_eval)

lemma md5_bytes_E:
  "hexdigest (md5_digest
      [84, 69, 88, 84, 67, 79, 76, 76, 66, 89, 102, 71, 105, 74, 85, 69, 84, 72,
       81, 52, 104, 69, 99, 75, 83, 77, 100, 53, 122, 89, 112, 103, 113, 102, 49, 89,
       82, 68, 104, 107, 109, 120, 72, 107, 104, 80, 87, 112, 116, 114, 107, 111, 121, 122,
       50, 56, 119, 110, 73, 57, 86, 48, 97, 72, 101, 65, 117, 97, 75, 110, 97, 107]) =
   ''faad49866e9498fc1719f5289e7a0269''"
  by (simp add: md5_eval)

lemma content_A_bytes:
  "content_A =
      [84, 69, 88, 84, 67, 79, 76, 76, 66, 89, 102, 71, 105, 74, 85, 69, 84, 72,
       81, 52, 104, 65, 99, 75, 83, 77, 100, 53, 122, 89, 112, 103, 113, 102, 49, 89,
       82, 68, 104, 107, 109, 120, 72, 107, 104, 80, 87, 112, 116, 114, 107, 111, 121, 122,
       50, 56, 119, 110, 73, 57, 86, 48, 97, 72, 101, 65, 117, 97, 75, 110, 97, 107]"
  by (simp add: content_A_def ascii_def)

lemma content_E_bytes:
  "content_E =
      [84, 69, 88, 84, 67, 79, 76, 76, 66, 89, 102, 71, 105, 74, 85, 69, 84, 72,
       81, 52, 104, 69, 99, 75, 83, 77, 100, 53, 122, 89, 112, 103, 113, 102, 49, 89,
       82, 68, 104, 107, 109, 120, 72, 107, 104, 80, 87, 112, 116, 114, 107, 111, 121, 122,
       50, 56, 119, 110, 73, 57, 86, 48, 97, 72, 101, 65, 117, 97, 75, 110, 97, 107]"
  by (simp add: content_E_def ascii_def)

lemma read_A:
  "utf8_decode
      [84, 69, 88, 84, 67, 79, 76, 76, 66, 89, 102, 71, 105, 74, 85, 69, 84, 72,
       81, 52, 104, 65, 99, 75, 83, 77, 100, 53, 122, 89, 112, 103, 113, 102, 49, 89,
       82, 68, 104, 107, 109, 120, 72, 107, 104, 80, 87, 112, 116, 114, 107, 111, 121, 122,
       50, 56, 119, 110, 73, 57, 86, 48, 97, 72, 101, 65, 117, 97, 75, 110, 97, 107] =
   Some
      [84, 69, 88, 84, 67, 79, 76, 76, 66, 89, 102, 71, 105, 74, 85, 69, 84, 72,
       81, 52, 104, 65, 99, 75, 83, 77, 100, 53, 122, 89, 112, 103, 113, 102, 49, 89,
       82, 68, 104, 107, 109, 120, 72, 107, 104, 80, 87, 112, 116, 114, 107, 111, 121, 122,
       50, 56, 119, 110, 73, 57, 86, 48, 97, 72, 101, 65, 117, 97, 75, 110, 97, 107]"
  by simp

lemma read_E:
  "utf8_decode
      [84, 69, 88, 84, 67, 79, 76, 76, 66, 89, 102, 71, 105, 74, 85, 69, 84, 72,
       81, 52, 104, 69, 99, 75, 83, 77, 100, 53, 122, 89, 112, 103, 113, 102, 49, 89,
       82, 68, 104, 107, 109, 120, 72, 107, 104, 80, 87, 112, 116, 114, 107, 111, 121, 122,
       50, 56, 119, 110, 73, 57, 86, 48, 97, 72, 101, 65, 117, 97, 75, 110, 97, 107] =
   Some
      [84, 69, 88, 84, 67, 79, 76, 76, 66, 89, 102, 71, 105, 74, 85, 69, 84, 72,
       81, 52, 104, 69, 99, 75, 83, 77, 100, 53, 122, 89, 112, 103, 113, 102, 49, 89,
       82, 68, 104, 107, 109, 120, 72, 107, 104, 80, 87, 112, 116, 114, 107, 111, 121, 122,
       50, 56, 119, 110, 73, 57, 86, 48, 97, 72, 101, 65, 117, 97, 75, 110, 97, 107]"
  by simp

lemma newlines_A:
  "universal_newlines
      [84, 69, 88, 84, 67, 79, 76, 76, 66, 89, 102, 71, 105, 74, 85, 69, 84, 72,
       81, 52, 104, 65, 99, 75, 83, 77, 100, 53, 122, 89, 112, 103, 113, 102, 49, 89,
       82, 68, 104, 107, 109, 120, 72, 107, 104, 80, 87, 112, 116, 114, 107, 111, 121, 122,
       50, 56, 119, 110, 73, 57, 86, 48, 97, 72, 101, 65, 117, 97, 75, 110, 97, 107] =
      [84, 69, 88, 84, 67, 79, 76, 76, 66, 89, 102, 71, 105, 74, 85, 69, 84, 72,
       81, 52, 104, 65, 99, 75, 83, 77, 100, 53, 122, 89, 112, 103, 113, 102, 49, 89,
       82, 68, 104, 107, 109, 120, 72, 107, 104, 80, 87, 112, 116, 114, 107, 111, 121, 122,
       50, 56, 119, 110, 73, 57, 86, 48, 97, 72, 101, 65, 117, 97, 75, 110, 97, 107]"
  by simp

lemma newlines_E:
  "universal_newlines
      [84, 69, 88, 84, 67, 79, 76, 76, 66, 89, 102, 71, 105, 74, 85, 69, 84, 72,
       81, 52, 104, 69, 99, 75, 83, 77, 100, 53, 122, 89, 112, 103, 113, 102, 49, 89,
       82, 68, 104, 107, 109, 120, 72, 107, 104, 80, 87, 112, 116, 114, 107, 111, 121, 122,
       50, 56, 119, 110, 73, 57, 86, 48, 97, 72, 101, 65, 117, 97, 75, 110, 97, 107] =
      [84, 69, 88, 84, 67, 79, 76, 76, 66, 89, 102, 71, 105, 74, 85, 69, 84, 72,
       81, 52, 104, 69, 99, 75, 83, 77, 100, 53, 122, 89, 112, 103, 113, 102, 49, 89,
       82, 68, 104, 107, 109, 120, 72, 107, 104, 80, 87, 112, 116, 114, 107, 111, 121, 122,
       50, 56, 119, 110, 73, 57, 86, 48, 97, 72, 101, 65, 117, 97, 75, 110, 97, 107]"
  by simp

lemma encode_A:
  "str_encode
      [84, 69, 88, 84, 67, 79, 76, 76, 66, 89, 102, 71, 105, 74, 85, 69, 84, 72,
       81, 52, 104, 65, 99, 75, 83, 77, 100, 53, 122, 89, 112, 103, 113, 102, 49, 89,
       82, 68, 104, 107, 109, 120, 72, 107, 104, 80, 87, 112, 116, 114, 107, 111, 121, 122,
       50, 56, 119, 110, 73, 57, 86, 48, 97, 72, 101, 65, 117, 97, 75, 110, 97, 107] =
   Some
      [84, 69, 88, 84, 67, 79, 76, 76, 66, 89, 102, 71, 105, 74, 85, 69, 84, 72,
       81, 52, 104, 65, 99, 75, 83, 77, 100, 53, 122, 89, 112, 103, 113, 102, 49, 89,
       82, 68, 104, 107, 109, 120, 72, 107, 104, 80, 87, 112, 116, 114, 107, 111, 121, 122,
       50, 56, 119, 110, 73, 57, 86, 48, 97, 72, 101, 65, 117, 97, 75, 110, 97, 107]"
  by (simp add: utf8_encode_char_def)

lemma encode_E:
  "str_encode
      [84, 69, 88, 84, 67, 79, 76, 76, 66, 89, 102, 71, 105, 74, 85, 69, 84, 72,
       81, 52, 104, 69, 99, 75, 83, 77, 100, 53, 122, 89, 112, 103, 113, 102, 49, 89,
       82, 68, 104, 107, 109, 120, 72, 107, 104, 80, 87, 112, 116, 114, 107, 111, 121, 122,
       50, 56, 119, 110, 73, 57, 86, 48, 97, 72, 101, 65, 117, 97, 75, 110, 97, 107] =
   Some
      [84, 69, 88, 84, 67, 79, 76, 76, 66, 89, 102, 71, 105, 74, 85, 69, 84, 72,
       81, 52, 104, 69, 99, 75, 83, 77, 100, 53, 122, 89, 112, 103, 113, 102, 49, 89,
       82, 68, 104, 107, 109, 120, 72, 107, 104, 80, 87, 112, 116, 114, 107, 111, 121, 122,
       50, 56, 119, 110, 73, 57, 86, 48, 97, 72, 101, 65, 117, 97, 75, 110, 97, 107]"
  by (simp add: utf8_encode_char_def)


lemma hex_digit_inject: "i < 16 \<Longrightarrow> j < 16 \<Longrightarrow> hex_digit i = hex_digit j \<Longrightarrow> i = j"
proof -
  assume i: "i < 16" and j: "j < 16" and e: "hex_digit i = hex_digit j"
  have d: "distinct ''0123456789abcdef''" by simp
  have l: "length ''0123456789abcdef'' = 16" by simp
  from e have "''0123456789abcdef'' ! i = ''0123456789abcdef'' ! j"
    by (simp only: hex_digit_def)
  with d i j l show "i = j"
    by (simp only: nth_eq_iff_index_eq)
qed

lemma hex_byte_inject:
  assumes "hex_digit (unat (b :: byte) div 16) = hex_digit (unat (b' :: byte) div 16)"
    and "hex_digit (unat b mod 16) = hex_digit (unat b' mod 16)"
  shows "b = b'"
proof -
  have lt: "unat b < 256" "unat b' < 256" by (rule unat_byte_less)+
  then have "unat b div 16 < 16" "unat b' div 16 < 16" by simp_all
  with assms(1) have hi: "unat b div 16 = unat b' div 16" by (rule hex_digit_inject [rotated 2])
  have "unat b mod 16 < 16" "unat b' mod 16 < 16" by simp_all
  with assms(2) have lo: "unat b mod 16 = unat b' mod 16" by (rule hex_digit_inject [rotated 2])
  have "unat b = unat b div 16 * 16 + unat b mod 16" by simp
  also have "\<dots> = unat b' div 16 * 16 + unat b' mod 16" by (simp only: hi lo)
  also have "\<dots> = unat b'" by simp
  finally have "of_nat (unat b) = (of_nat (unat b') :: byte)" by (simp only:)
  then show ?thesis by simp
qed

lemma hexdigest_Cons:
  "hexdigest (b # bs) = hex_digit (unat b div 16) # hex_digit (unat b mod 16) # hexdigest bs"
  by (simp add: hexdigest_def)

lemma hexdigest_inject: "hexdigest bs = hexdigest bs' \<Longrightarrow> bs = bs'"
proof (induction bs arbitrary: bs')
  case Nil
  then have "length (hexdigest bs') = 0" by (simp add: hexdigest_def)
  then show ?case by (simp add: length_hexdigest)
next
  case (Cons b bs)
  from Cons.prems have "length (hexdigest bs') = length (hexdigest (b # bs))" by simp
  then have "length bs' = Suc (length bs)" by (simp add: length_hexdigest)
  then obtain b' r where bs': "bs' = b' # r" by (cases bs') auto
  from Cons.prems have h: "hex_digit (unat b div 16) = hex_digit (unat b' div 16)"
    "hex_digit (unat b mod 16) = hex_digit (unat b' mod 16)" "hexdigest bs = hexdigest r"
    unfolding bs' hexdigest_Cons by simp_all
  from h(1,2) have "b = b'" by (rule hex_byte_inject)
  moreover from h(3) have "bs = r" by (rule Cons.IH)
  ultimately show ?case by (simp add: bs')
qed

lemma set_universal_newlines: "set (universal_newlines t) \<subseteq> insert 10 (set t)"
  by (induction t rule: universal_newlines.induct) auto

lemma str_encode_Some_iff:
  "(\<exists>e. str_encode t = Some e) \<longleftrightarrow> (\<forall>c\<in>set t. \<exists>b. utf8_encode_char c = Some b)"
  by (induction t) (auto split: option.splits)

lemma encode_universal_newlines:
  assumes "str_encode t = Some e"
  shows "\<exists>e'. str_encode (universal_newlines t) = Some e'"
proof -
  have ok: "\<forall>c\<in>set t. \<exists>b. utf8_encode_char c = Some b"
    using assms str_encode_Some_iff [of t] by blast
  have lf: "\<exists>b. utf8_encode_char 10 = Some b"
    by (simp add: utf8_encode_char_def)
  have "\<forall>c\<in>set (universal_newlines t). \<exists>b. utf8_encode_char c = Some b"
  proof
    fix c assume "c \<in> set (universal_newlines t)"
    then have "c = 10 \<or> c \<in> set t" using set_universal_newlines [of t] by auto
    with ok lf show "\<exists>b. utf8_encode_char c = Some b" by auto
  qed
  then show ?thesis using str_encode_Some_iff [of "universal_newlines t"] by blast
qed

lemma checksum_value:
  assumes "files (location module) = Some (File content)"
    and "locale_decode content = Some decoded"
    and "str_encode (universal_newlines decoded) = Some file_data"
  shows "calculate_migration_checksum locale_decode files module =
     Inr (hexdigest (md5_digest file_data))"
  using assms by (simp add: calculate_migration_checksum_def)

section \<open>The checksum service: what the digest depends on\<close>

text \<open>
  C3 (amended). Given a module whose file can be read and decoded, the checksum service
  reads the whole file in text mode (decoded with the codec of the locale, the line
  endings \<^verbatim>\<open>\r\n\<close> and \<^verbatim>\<open>\r\<close> read as \<^verbatim>\<open>\n\<close>), encodes the text as bytes and returns
  the hexadecimal MD5 digest of the bytes: 32 characters, each a digit or a letter from
  \<open>a\<close> to \<open>f\<close>. For any two such files, the bytes hashed are the same exactly when the
  texts read are the same, and the digests are the same exactly when the MD5 digests of
  the bytes hashed are the same: identical content gives identical digests, and a change
  of the content that changes the text read changes the bytes hashed, and changes the
  digest unless the two byte sequences collide under MD5. With the UTF-8 codec, files
  with different bytes are read as different texts before the line endings are
  translated, and the text read always encodes.
\<close>

theorem checksum_digest:
  assumes "files (location module) = Some (File content)"
    and "locale_decode content = Some decoded"
    and "str_encode (universal_newlines decoded) = Some file_data"
  shows "calculate_migration_checksum locale_decode files module =
       Inr (hexdigest (md5_digest file_data)) \<and>
     length (hexdigest (md5_digest file_data)) = 32 \<and>
     set (hexdigest (md5_digest file_data)) \<subseteq> set ''0123456789abcdef'' \<and>
     (\<forall>locale_decode' files' module' content' decoded' file_data'.
        files' (location module') = Some (File content') \<and>
        locale_decode' content' = Some decoded' \<and>
        str_encode (universal_newlines decoded') = Some file_data' \<longrightarrow>
          (file_data' = file_data \<longleftrightarrow>
             universal_newlines decoded' = universal_newlines decoded) \<and>
          (calculate_migration_checksum locale_decode' files' module' =
             calculate_migration_checksum locale_decode files module \<longleftrightarrow>
           md5_digest file_data' = md5_digest file_data)) \<and>
     (\<forall>content' decoded'.
        locale_decode = utf8_decode \<and> utf8_decode content' = Some decoded' \<longrightarrow>
          (decoded' = decoded \<longleftrightarrow> content' = content) \<and>
          (\<exists>file_data'. str_encode (universal_newlines decoded') = Some file_data'))"
proof (intro conjI allI impI)
  show v: "calculate_migration_checksum locale_decode files module =
       Inr (hexdigest (md5_digest file_data))"
    using assms by (rule checksum_value)
  show "length (hexdigest (md5_digest file_data)) = 32"
    by (simp add: length_hexdigest length_md5_digest)
  show "set (hexdigest (md5_digest file_data)) \<subseteq> set ''0123456789abcdef''"
    by (rule set_hexdigest)
next
  fix locale_decode' :: "byte list \<Rightarrow> pystr option" and files' :: "string \<Rightarrow> node option"
    and module' :: MigrationModule and content' decoded' file_data'
  assume h: "files' (location module') = Some (File content') \<and>
        locale_decode' content' = Some decoded' \<and>
        str_encode (universal_newlines decoded') = Some file_data'"
  show "file_data' = file_data \<longleftrightarrow> universal_newlines decoded' = universal_newlines decoded"
  proof
    assume "file_data' = file_data"
    with h have "str_encode (universal_newlines decoded') = Some file_data" by simp
    then show "universal_newlines decoded' = universal_newlines decoded"
      using assms(3) by (rule str_encode_inject)
  next
    assume "universal_newlines decoded' = universal_newlines decoded"
    with h assms(3) show "file_data' = file_data" by simp
  qed
  have v: "calculate_migration_checksum locale_decode files module =
       Inr (hexdigest (md5_digest file_data))"
    using assms by (rule checksum_value)
  have v': "calculate_migration_checksum locale_decode' files' module' =
       Inr (hexdigest (md5_digest file_data'))"
    using h by (intro checksum_value) blast+
  show "calculate_migration_checksum locale_decode' files' module' =
      calculate_migration_checksum locale_decode files module \<longleftrightarrow>
      md5_digest file_data' = md5_digest file_data"
    unfolding v v' using hexdigest_inject by auto
next
  fix content' decoded'
  assume u: "locale_decode = utf8_decode \<and> utf8_decode content' = Some decoded'"
  with assms(2) have d: "utf8_decode content = Some decoded" by simp
  show "decoded' = decoded \<longleftrightarrow> content' = content"
  proof
    assume "decoded' = decoded"
    with u have "utf8_decode content' = Some decoded" by simp
    then show "content' = content" using d by (rule utf8_decode_inject)
  next
    assume "content' = content"
    with u d show "decoded' = decoded" by simp
  qed
  from u have "str_encode decoded' = Some content'" by (intro str_encode_decode) simp
  then show "\<exists>file_data'. str_encode (universal_newlines decoded') = Some file_data'"
    by (rule encode_universal_newlines)
qed


theorem checksum_digest_witness:
  "[''migrations/001_init.py'' \<mapsto> File [0x61, 0x62, 0x63]]
     (location \<lparr>location = ''migrations/001_init.py''\<rparr>) = Some (File [0x61, 0x62, 0x63]) \<and>
   utf8_decode [0x61, 0x62, 0x63] = Some [97, 98, 99] \<and>
   str_encode (universal_newlines [97, 98, 99]) = Some [0x61, 0x62, 0x63] \<and>
   calculate_migration_checksum utf8_decode
     [''migrations/001_init.py'' \<mapsto> File [0x61, 0x62, 0x63]]
     \<lparr>location = ''migrations/001_init.py''\<rparr> = Inr ''900150983cd24fb0d6963f7d28e17f72'' \<and>
   length ''900150983cd24fb0d6963f7d28e17f72'' = 32 \<and>
   calculate_migration_checksum utf8_decode
     [''migrations/001_init.py'' \<mapsto> File [0x61, 0x62, 0x63, 0x20]]
     \<lparr>location = ''migrations/001_init.py''\<rparr> = Inr ''28a53e303da9f5742476fd6b62434540'' \<and>
   calculate_migration_checksum utf8_decode
     [''migrations/001_init.py'' \<mapsto> File [0x61, 0x62, 0x63, 0x20]]
     \<lparr>location = ''migrations/001_init.py''\<rparr> \<noteq>
   calculate_migration_checksum utf8_decode
     [''migrations/001_init.py'' \<mapsto> File [0x61, 0x62, 0x63]]
     \<lparr>location = ''migrations/001_init.py''\<rparr>"
proof -
  let ?m = "\<lparr>location = ''migrations/001_init.py''\<rparr>"
  let ?f = "[''migrations/001_init.py'' \<mapsto> File [0x61, 0x62, 0x63]]"
  let ?g = "[''migrations/001_init.py'' \<mapsto> File [0x61, 0x62, 0x63, 0x20]]"
  have f: "?f (location ?m) = Some (File [0x61, 0x62, 0x63])" by simp
  have d: "utf8_decode [0x61, 0x62, 0x63] = Some [97, 98, 99]" by simp
  have e: "str_encode (universal_newlines [97, 98, 99]) = Some [0x61, 0x62, 0x63]"
    by (simp add: utf8_encode_char_def)
  have g: "?g (location ?m) = Some (File [0x61, 0x62, 0x63, 0x20])" by simp
  have d': "utf8_decode [0x61, 0x62, 0x63, 0x20] = Some [97, 98, 99, 32]" by simp
  have e': "str_encode (universal_newlines [97, 98, 99, 32]) = Some [0x61, 0x62, 0x63, 0x20]"
    by (simp add: utf8_encode_char_def)
  from checksum_digest [where files = ?f and module = ?m and locale_decode = utf8_decode
      and content = "[0x61, 0x62, 0x63]" and decoded = "[97, 98, 99]"
      and file_data = "[0x61, 0x62, 0x63]", OF f d e]
  have 1: "calculate_migration_checksum utf8_decode ?f ?m =
      Inr (hexdigest (md5_digest [0x61, 0x62, 0x63]))"
    by blast
  from checksum_digest [where files = ?g and module = ?m and locale_decode = utf8_decode
      and content = "[0x61, 0x62, 0x63, 0x20]" and decoded = "[97, 98, 99, 32]"
      and file_data = "[0x61, 0x62, 0x63, 0x20]", OF g d' e']
  have 2: "calculate_migration_checksum utf8_decode ?g ?m =
      Inr (hexdigest (md5_digest [0x61, 0x62, 0x63, 0x20]))"
    by blast
  have 3: "calculate_migration_checksum utf8_decode ?f ?m =
      Inr ''900150983cd24fb0d6963f7d28e17f72''"
    unfolding 1 md5_abc ..
  have 4: "calculate_migration_checksum utf8_decode ?g ?m =
      Inr ''28a53e303da9f5742476fd6b62434540''"
    unfolding 2 md5_abc_space ..
  have 5: "calculate_migration_checksum utf8_decode ?g ?m \<noteq>
      calculate_migration_checksum utf8_decode ?f ?m"
    unfolding 3 4 by simp
  have 6: "length ''900150983cd24fb0d6963f7d28e17f72'' = 32" by simp
  from f d e 3 6 4 5 show ?thesis by blast
qed

text \<open>
  The claim C3 as first stated, that any change of a byte of the content changes the
  digest, fails in two ways. The files \<open>content_A\<close> and \<open>content_E\<close> differ in one
  character and collide under MD5: the service returns the same digest for both. And a
  file with the line ending \<^verbatim>\<open>\r\n\<close> gets the digest of the same file with the line
  ending \<^verbatim>\<open>\n\<close>, since text mode reads both as \<^verbatim>\<open>\n\<close>.
\<close>

theorem checksum_unchanged_counterexample:
  "content_A \<noteq> content_E \<and>
   calculate_migration_checksum utf8_decode [''migrations/001_init.py'' \<mapsto> File content_A]
     \<lparr>location = ''migrations/001_init.py''\<rparr> = Inr ''faad49866e9498fc1719f5289e7a0269'' \<and>
   calculate_migration_checksum utf8_decode [''migrations/001_init.py'' \<mapsto> File content_E]
     \<lparr>location = ''migrations/001_init.py''\<rparr> = Inr ''faad49866e9498fc1719f5289e7a0269'' \<and>
   [0x61, 0x0D, 0x0A] \<noteq> [0x61, 0x0A :: byte] \<and>
   calculate_migration_checksum utf8_decode
     [''migrations/001_init.py'' \<mapsto> File [0x61, 0x0D, 0x0A]]
     \<lparr>location = ''migrations/001_init.py''\<rparr> = Inr ''60b725f10c9c85c70d97880dfe8191b3'' \<and>
   calculate_migration_checksum utf8_decode
     [''migrations/001_init.py'' \<mapsto> File [0x61, 0x0A]]
     \<lparr>location = ''migrations/001_init.py''\<rparr> = Inr ''60b725f10c9c85c70d97880dfe8191b3''"
proof -
  let ?m = "\<lparr>location = ''migrations/001_init.py''\<rparr>"
  have ne: "content_A \<noteq> content_E"
    unfolding content_A_bytes content_E_bytes by simp
  have fa: "[''migrations/001_init.py'' \<mapsto> File content_A] (location ?m) =
      Some (File content_A)"
    by simp
  have fe: "[''migrations/001_init.py'' \<mapsto> File content_E] (location ?m) =
      Some (File content_E)"
    by simp
  have ra: "utf8_decode content_A = Some (map of_char
      ''TEXTCOLLBYfGiJUETHQ4hAcKSMd5zYpgqf1YRDhkmxHkhPWptrkoyz28wnI9V0aHeAuaKnak'')"
    unfolding content_A_bytes read_A by simp
  have re: "utf8_decode content_E = Some (map of_char
      ''TEXTCOLLBYfGiJUETHQ4hEcKSMd5zYpgqf1YRDhkmxHkhPWptrkoyz28wnI9V0aHeAuaKnak'')"
    unfolding content_E_bytes read_E by simp
  have ea: "str_encode (universal_newlines (map of_char
      ''TEXTCOLLBYfGiJUETHQ4hAcKSMd5zYpgqf1YRDhkmxHkhPWptrkoyz28wnI9V0aHeAuaKnak'')) =
      Some content_A"
    unfolding content_A_bytes using newlines_A encode_A by simp
  have ee: "str_encode (universal_newlines (map of_char
      ''TEXTCOLLBYfGiJUETHQ4hEcKSMd5zYpgqf1YRDhkmxHkhPWptrkoyz28wnI9V0aHeAuaKnak'')) =
      Some content_E"
    unfolding content_E_bytes using newlines_E encode_E by simp
  have ha: "hexdigest (md5_digest content_A) = ''faad49866e9498fc1719f5289e7a0269''"
    unfolding content_A_bytes by (rule md5_bytes_A)
  have he: "hexdigest (md5_digest content_E) = ''faad49866e9498fc1719f5289e7a0269''"
    unfolding content_E_bytes by (rule md5_bytes_E)
  have a: "calculate_migration_checksum utf8_decode
      [''migrations/001_init.py'' \<mapsto> File content_A] ?m =
      Inr ''faad49866e9498fc1719f5289e7a0269''"
    using checksum_value [where files = "[''migrations/001_init.py'' \<mapsto> File content_A]"
        and module = ?m and locale_decode = utf8_decode and content = content_A, OF fa ra ea]
    unfolding ha .
  have e: "calculate_migration_checksum utf8_decode
      [''migrations/001_init.py'' \<mapsto> File content_E] ?m =
      Inr ''faad49866e9498fc1719f5289e7a0269''"
    using checksum_value [where files = "[''migrations/001_init.py'' \<mapsto> File content_E]"
        and module = ?m and locale_decode = utf8_decode and content = content_E, OF fe re ee]
    unfolding he .
  have d1: "utf8_decode [0x61, 0x0D, 0x0A] = Some [97, 13, 10]" by simp
  have d2: "utf8_decode [0x61, 0x0A] = Some [97, 10]" by simp
  have n1: "str_encode (universal_newlines [97, 13, 10]) = Some [0x61, 0x0A]"
    by (simp add: utf8_encode_char_def)
  have n2: "str_encode (universal_newlines [97, 10]) = Some [0x61, 0x0A]"
    by (simp add: utf8_encode_char_def)
  have f1: "[''migrations/001_init.py'' \<mapsto> File [0x61, 0x0D, 0x0A]] (location ?m) =
      Some (File [0x61, 0x0D, 0x0A])"
    by simp
  have f2: "[''migrations/001_init.py'' \<mapsto> File [0x61, 0x0A]] (location ?m) =
      Some (File [0x61, 0x0A])"
    by simp
  have c1: "calculate_migration_checksum utf8_decode
      [''migrations/001_init.py'' \<mapsto> File [0x61, 0x0D, 0x0A]] ?m =
      Inr ''60b725f10c9c85c70d97880dfe8191b3''"
    using checksum_value [where files = "[''migrations/001_init.py'' \<mapsto> File [0x61, 0x0D, 0x0A]]"
        and module = ?m and locale_decode = utf8_decode and content = "[0x61, 0x0D, 0x0A]",
        OF f1 d1 n1]
    unfolding md5_a_newline .
  have c2: "calculate_migration_checksum utf8_decode
      [''migrations/001_init.py'' \<mapsto> File [0x61, 0x0A]] ?m =
      Inr ''60b725f10c9c85c70d97880dfe8191b3''"
    using checksum_value [where files = "[''migrations/001_init.py'' \<mapsto> File [0x61, 0x0A]]"
        and module = ?m and locale_decode = utf8_decode and content = "[0x61, 0x0A]",
        OF f2 d2 n2]
    unfolding md5_a_newline .
  have nb: "[0x61, 0x0D, 0x0A] \<noteq> [0x61, 0x0A :: byte]" by simp
  from ne a e nb c1 c2 show ?thesis by blast
qed

end
